theory Spec2Isabelle
  imports Main "HOL-Library.Sublist"
begin

section \<open>Strings\<close>

text \<open>
  A JavaScript string is modelled as a list of 8-bit characters, read as the code
  units U+0000 to U+00FF. \<open>is_space\<close> is the class \<open>\s\<close> on that range (tab, line
  feed, vertical tab, form feed, carriage return, space, no-break space); it is also
  the set that \<open>String.prototype.trim\<close> removes. \<open>is_word\<close> is \<open>\w\<close>.
\<close>

definition is_space :: "char \<Rightarrow> bool" where
  "is_space c = (c \<in> set [CHR 0x09, CHR 0x0A, CHR 0x0B, CHR 0x0C, CHR 0x0D, CHR 0x20, CHR 0xA0])"

text \<open>
  The order of code units, by their bits from the most significant one, and a range
  \<open>lo-hi\<close> of code units.
\<close>

fun bits_le :: "bool list \<Rightarrow> bool list \<Rightarrow> bool" where
  "bits_le (a # as) (b # bs) = (if a = b then bits_le as bs else b)"
| "bits_le as bs = True"

fun bits_of :: "char \<Rightarrow> bool list" where
  "bits_of (Char b0 b1 b2 b3 b4 b5 b6 b7) = [b7, b6, b5, b4, b3, b2, b1, b0]"

definition char_le :: "char \<Rightarrow> char \<Rightarrow> bool" where
  "char_le c d = bits_le (bits_of c) (bits_of d)"

definition in_range :: "char \<Rightarrow> char \<Rightarrow> char \<Rightarrow> bool" where
  "in_range lo hi c = (char_le lo c \<and> char_le c hi)"

definition is_word :: "char \<Rightarrow> bool" where
  "is_word c =
     (in_range CHR ''0'' CHR ''9'' c \<or> in_range CHR ''A'' CHR ''Z'' c
      \<or> in_range CHR ''a'' CHR ''z'' c \<or> c = CHR ''_'')"

definition is_line_terminator :: "char \<Rightarrow> bool" where
  "is_line_terminator c = (c = CHR 0x0A \<or> c = CHR 0x0D)"

text \<open>
  Upper and lower case of one code unit: the letters A to Z and a to z, and the
  letters U+00C0 to U+00DE (without the multiplication sign U+00D7) and U+00E0 to
  U+00FE (without the division sign U+00F7). The two cases of a letter differ by 32,
  which is one bit of the code unit.
\<close>

fun with_bit5 :: "bool \<Rightarrow> char \<Rightarrow> char" where
  "with_bit5 b (Char b0 b1 b2 b3 b4 b5 b6 b7) = Char b0 b1 b2 b3 b4 b b6 b7"

definition is_upper :: "char \<Rightarrow> bool" where
  "is_upper c = (in_range CHR ''A'' CHR ''Z'' c \<or> (in_range (CHR 0xC0) (CHR 0xDE) c \<and> c \<noteq> CHR 0xD7))"

definition is_lower :: "char \<Rightarrow> bool" where
  "is_lower c = (in_range CHR ''a'' CHR ''z'' c \<or> (in_range (CHR 0xE0) (CHR 0xFE) c \<and> c \<noteq> CHR 0xF7))"

text \<open>\<open>toLowerCase\<close> on one code unit.\<close>

definition to_lower_char :: "char \<Rightarrow> char" where
  "to_lower_char c = (if is_upper c then with_bit5 True c else c)"

text \<open>
  \<open>toUpperCase\<close> on one code unit, for the letters whose upper-case form is one
  code unit of the range (this leaves out U+00B5, U+00DF and U+00FF).
\<close>

definition to_upper_char :: "char \<Rightarrow> char" where
  "to_upper_char c = (if is_lower c then with_bit5 False c else c)"

definition toLowerCase :: "string \<Rightarrow> string" where
  "toLowerCase s = map to_lower_char s"

definition toUpperCase :: "string \<Rightarrow> string" where
  "toUpperCase s = map to_upper_char s"

text \<open>\<open>shorter xs ys\<close>: \<open>xs\<close> has fewer elements than \<open>ys\<close>.\<close>

fun shorter :: "'a list \<Rightarrow> 'a list \<Rightarrow> bool" where
  "shorter xs [] = False"
| "shorter [] (y # ys) = True"
| "shorter (x # xs) (y # ys) = shorter xs ys"

lemma shorter_length [simp]: "shorter xs ys = (length xs < length ys)"
  by (induction xs ys rule: shorter.induct) simp_all

definition trim :: "string \<Rightarrow> string" where
  "trim s = rev (dropWhile is_space (rev (dropWhile is_space s)))"

definition trimEnd :: "string \<Rightarrow> string" where
  "trimEnd s = rev (dropWhile is_space (rev s))"

text \<open>\<open>strip_prefix p s\<close>: when \<open>s\<close> starts with \<open>p\<close>, what follows \<open>p\<close>.\<close>

fun strip_prefix :: "string \<Rightarrow> string \<Rightarrow> string option" where
  "strip_prefix [] s = Some s"
| "strip_prefix (p # ps) [] = None"
| "strip_prefix (p # ps) (c # cs) = (if p = c then strip_prefix ps cs else None)"

definition startsWith :: "string \<Rightarrow> string \<Rightarrow> bool" where
  "startsWith s p = (strip_prefix p s \<noteq> None)"

text \<open>
  \<open>split_first p s\<close>: the text before and after the first occurrence of \<open>p\<close> in \<open>s\<close>.
  This is what a lazy \<open>[\s\S]*?\<close> followed by the literal \<open>p\<close> matches.
\<close>

fun split_first :: "string \<Rightarrow> string \<Rightarrow> (string \<times> string) option" where
  "split_first p [] = (if p = [] then Some ([], []) else None)"
| "split_first p (c # cs) =
     (case strip_prefix p (c # cs) of
        Some r \<Rightarrow> Some ([], r)
      | None \<Rightarrow> (case split_first p cs of
                  None \<Rightarrow> None
                | Some (a, r) \<Rightarrow> Some (c # a, r)))"

text \<open>\<open>s.replace(p, r)\<close> with a string pattern: the first occurrence only.\<close>

definition replace_str :: "string \<Rightarrow> string \<Rightarrow> string \<Rightarrow> string" where
  "replace_str p r s = (case split_first p s of None \<Rightarrow> s | Some (a, b) \<Rightarrow> a @ r @ b)"

text \<open>\<open>s.split("\n")\<close> and \<open>parts.join(sep)\<close>.\<close>

fun split_lines :: "string \<Rightarrow> string list" where
  "split_lines [] = [[]]"
| "split_lines (c # cs) =
     (if c = CHR 0x0A then [] # split_lines cs
      else (case split_lines cs of
              [] \<Rightarrow> [[c]]
            | l # ls \<Rightarrow> (c # l) # ls))"

fun join :: "string \<Rightarrow> string list \<Rightarrow> string" where
  "join sep [] = []"
| "join sep [x] = x"
| "join sep (x # y # ys) = x @ sep @ join sep (y # ys)"

text \<open>
  \<open>search f s\<close>: a pattern is tried at every start position from the left; \<open>f\<close> is
  the match attempt at the head of its argument. The result is the text before the
  match and what \<open>f\<close> returned.
\<close>

fun search :: "(string \<Rightarrow> 'a option) \<Rightarrow> string \<Rightarrow> (string \<times> 'a) option" where
  "search f [] = (case f [] of None \<Rightarrow> None | Some r \<Rightarrow> Some ([], r))"
| "search f (c # cs) =
     (case f (c # cs) of
        Some r \<Rightarrow> Some ([], r)
      | None \<Rightarrow> (case search f cs of
                  None \<Rightarrow> None
                | Some (b, r) \<Rightarrow> Some (c # b, r)))"

subsection \<open>Decimal numerals\<close>

text \<open>A number in a template literal: its decimal digits.\<close>

definition digit :: "nat \<Rightarrow> char" where
  "digit d = ''0123456789'' ! d"

function show_nat :: "nat \<Rightarrow> string" where
  "show_nat n = (if n < 10 then [digit n] else show_nat (n div 10) @ [digit (n mod 10)])"
  by pat_completeness auto
termination
  by (relation "measure id") auto

declare show_nat.simps [simp del]

definition show_int :: "int \<Rightarrow> string" where
  "show_int i = (if i < 0 then CHR ''-'' # show_nat (nat (- i)) else show_nat (nat i))"

section \<open>Regular expressions\<close>

text \<open>
  The regular expressions of the source are written as terms of \<open>rx\<close> and run by a
  backtracking matcher that follows the ECMAScript semantics: alternatives are
  tried from the left, a greedy quantifier tries its body before the rest and a
  lazy one the rest before its body, and an iteration of a quantifier whose minimum
  is reached is rejected when it matches the empty string. Capturing groups do
  not occur under a quantifier in any expression of the source, so captures are
  never reset.
\<close>

datatype citem = Ch char | Rng char char | Space | Word

datatype rx =
    Lit char
  | Cls bool "citem list"
  | Dot
  | Eps
  | Seq rx rx
  | Alt rx rx
  | Rep bool nat "nat option" rx
  | Grp nat rx
  | Bol
  | Eol
  | Wb

text \<open>
  \<open>Cls False items\<close> is \<open>[items]\<close> and \<open>Cls True items\<close> is \<open>[^items]\<close>;
  \<open>Rep greedy min max r\<close> is \<open>r{min,max}\<close> (\<open>None\<close>: no upper bound), lazy when
  \<open>greedy\<close> is false; \<open>Grp n r\<close> is the \<open>n\<close>-th capturing group; \<open>Bol\<close>, \<open>Eol\<close> and
  \<open>Wb\<close> are \<open>^\<close>, \<open>$\<close> and \<open>\b\<close>. The flags \<open>i\<close> and \<open>m\<close>:
\<close>

record rflags =
  ignoreCase :: bool
  multiline :: bool

text \<open>
  The state of a match: the text before the current position (reversed), the text
  from the current position on, and the captures made so far (newest first).
\<close>

type_synonym mstate = "string \<times> string \<times> (nat \<times> string) list"

definition remaining :: "mstate \<Rightarrow> nat" where
  "remaining st = length (fst (snd st))"

text \<open>\<open>advanced st st'\<close>: the position of \<open>st'\<close> is after that of \<open>st\<close>.\<close>

definition advanced :: "mstate \<Rightarrow> mstate \<Rightarrow> bool" where
  "advanced st st' = shorter (fst (snd st')) (fst (snd st))"

definition not_behind :: "mstate \<Rightarrow> mstate \<Rightarrow> bool" where
  "not_behind st st' = (\<not> shorter (fst (snd st)) (fst (snd st')))"

text \<open>
  \<open>consumed st st'\<close>: the text between the positions of \<open>st\<close> and \<open>st'\<close>, that is
  the first \<open>remaining st - remaining st'\<close> code units from \<open>st\<close> on.
\<close>

fun beyond :: "'a list \<Rightarrow> 'a list \<Rightarrow> 'a list" where
  "beyond xs [] = xs"
| "beyond [] (y # ys) = []"
| "beyond (x # xs) (y # ys) = beyond xs ys"

fun take_along :: "'a list \<Rightarrow> 'b list \<Rightarrow> 'a list" where
  "take_along (x # xs) (y # ys) = x # take_along xs ys"
| "take_along xs ys = []"

definition consumed :: "mstate \<Rightarrow> mstate \<Rightarrow> string" where
  "consumed st st' = take_along (fst (snd st)) (beyond (fst (snd st)) (fst (snd st')))"

lemma beyond_drop: "beyond xs ys = drop (length ys) xs"
  by (induction xs ys rule: beyond.induct) simp_all

lemma take_along_take: "take_along xs ys = take (length ys) xs"
  by (induction xs ys rule: take_along.induct) simp_all

lemma consumed_take:
  "consumed st st' = take (remaining st - remaining st') (fst (snd st))"
  by (simp add: consumed_def beyond_drop take_along_take remaining_def)

text \<open>
  \<open>Canonicalize\<close> for the flag \<open>i\<close> (without \<open>u\<close>): the upper-case form of the code
  unit when that is a single code unit of the range.
\<close>

definition canonicalize :: "char \<Rightarrow> char" where
  "canonicalize c = to_upper_char c"

fun item_matches :: "bool \<Rightarrow> citem \<Rightarrow> char \<Rightarrow> bool" where
  "item_matches ic (Ch p) c = (if ic then canonicalize p = canonicalize c else p = c)"
| "item_matches ic (Rng lo hi) c =
     (if ic then in_range lo hi (canonicalize c) \<or> in_range lo hi (to_lower_char (canonicalize c))
      else in_range lo hi c)"
| "item_matches ic Space c = is_space c"
| "item_matches ic Word c = is_word c"

definition class_matches :: "bool \<Rightarrow> bool \<Rightarrow> citem list \<Rightarrow> char \<Rightarrow> bool" where
  "class_matches ic neg items c = (list_ex (\<lambda>i. item_matches ic i c) items \<noteq> neg)"

definition step_char :: "(char \<Rightarrow> bool) \<Rightarrow> (mstate \<Rightarrow> mstate option) \<Rightarrow> mstate \<Rightarrow> mstate option" where
  "step_char P k st =
     (case st of (bef, rest, caps) \<Rightarrow>
        (case rest of
           [] \<Rightarrow> None
         | c # cs \<Rightarrow> if P c then k (c # bef, cs, caps) else None))"

definition dec :: "nat option \<Rightarrow> nat option" where
  "dec mx = (case mx of None \<Rightarrow> None | Some n \<Rightarrow> Some (n - 1))"

text \<open>
  \<open>rep greedy min max body k\<close>: the quantifier around \<open>body\<close>, followed by the
  continuation \<open>k\<close>. The tests on the position are the rule on empty iterations;
  no matcher moves backwards, so the test under \<open>0 < min\<close> always holds.
\<close>

function rep :: "bool \<Rightarrow> nat \<Rightarrow> nat option \<Rightarrow> ((mstate \<Rightarrow> mstate option) \<Rightarrow> mstate \<Rightarrow> mstate option)
    \<Rightarrow> (mstate \<Rightarrow> mstate option) \<Rightarrow> mstate \<Rightarrow> mstate option" where
  "rep greedy mn mx body k st =
     (if mx = Some 0 then k st
      else if 0 < mn then
        body (\<lambda>st'. if not_behind st st'
                     then rep greedy (mn - 1) (dec mx) body k st' else None) st
      else if greedy then
        (case body (\<lambda>st'. if advanced st st'
                           then rep greedy 0 (dec mx) body k st' else None) st of
           Some r \<Rightarrow> Some r
         | None \<Rightarrow> k st)
      else
        (case k st of
           Some r \<Rightarrow> Some r
         | None \<Rightarrow> body (\<lambda>st'. if advanced st st'
                                 then rep greedy 0 (dec mx) body k st' else None) st))"
  by pat_completeness auto
termination
  by (relation "measure (\<lambda>(greedy, mn, mx, body, k, st). mn + remaining st)")
     (auto simp: advanced_def not_behind_def remaining_def)

declare rep.simps [simp del]

definition at_bol :: "rflags \<Rightarrow> mstate \<Rightarrow> bool" where
  "at_bol fl st =
     (case fst st of
        [] \<Rightarrow> True
      | c # cs \<Rightarrow> multiline fl \<and> is_line_terminator c)"

definition at_eol :: "rflags \<Rightarrow> mstate \<Rightarrow> bool" where
  "at_eol fl st =
     (case fst (snd st) of
        [] \<Rightarrow> True
      | c # cs \<Rightarrow> multiline fl \<and> is_line_terminator c)"

definition at_wb :: "mstate \<Rightarrow> bool" where
  "at_wb st =
     ((case fst st of [] \<Rightarrow> False | c # cs \<Rightarrow> is_word c)
      \<noteq> (case fst (snd st) of [] \<Rightarrow> False | c # cs \<Rightarrow> is_word c))"

text \<open>\<open>rx_match fl r k st\<close>: match \<open>r\<close> at \<open>st\<close>, then whatever \<open>k\<close> matches.\<close>

primrec rx_match :: "rflags \<Rightarrow> rx \<Rightarrow> (mstate \<Rightarrow> mstate option) \<Rightarrow> mstate \<Rightarrow> mstate option" where
  "rx_match fl (Lit p) k st =
     step_char (\<lambda>c. if ignoreCase fl then canonicalize p = canonicalize c else p = c) k st"
| "rx_match fl (Cls neg items) k st = step_char (class_matches (ignoreCase fl) neg items) k st"
| "rx_match fl Dot k st = step_char (\<lambda>c. \<not> is_line_terminator c) k st"
| "rx_match fl Eps k st = k st"
| "rx_match fl (Seq a b) k st = rx_match fl a (rx_match fl b k) st"
| "rx_match fl (Alt a b) k st = (case rx_match fl a k st of Some r \<Rightarrow> Some r | None \<Rightarrow> rx_match fl b k st)"
| "rx_match fl (Rep greedy mn mx r) k st = rep greedy mn mx (rx_match fl r) k st"
| "rx_match fl (Grp n r) k st =
     rx_match fl r (\<lambda>st'. k (fst st', fst (snd st'),
                        (n, consumed st st') # snd (snd st'))) st"
| "rx_match fl Bol k st = (if at_bol fl st then k st else None)"
| "rx_match fl Eol k st = (if at_eol fl st then k st else None)"
| "rx_match fl Wb k st = (if at_wb st then k st else None)"

text \<open>
  \<open>rx_search fl r bef s\<close>: the leftmost match in \<open>s\<close>, where \<open>bef\<close> is the text
  before \<open>s\<close> (reversed). The result is the text skipped before the match and the
  state at its end.
\<close>

fun rx_search :: "rflags \<Rightarrow> rx \<Rightarrow> string \<Rightarrow> string \<Rightarrow> (string \<times> mstate) option" where
  "rx_search fl r bef [] =
     (case rx_match fl r Some (bef, [], []) of
        Some e \<Rightarrow> Some ([], e)
      | None \<Rightarrow> None)"
| "rx_search fl r bef (c # cs) =
     (case rx_match fl r Some (bef, c # cs, []) of
        Some e \<Rightarrow> Some ([], e)
      | None \<Rightarrow> (case rx_search fl r (c # bef) cs of
                  None \<Rightarrow> None
                | Some (sk, e) \<Rightarrow> Some (c # sk, e)))"

subsection \<open>The methods that take a regular expression\<close>

text \<open>\<open>re.test(s)\<close>\<close>

definition rx_test :: "rflags \<Rightarrow> rx \<Rightarrow> string \<Rightarrow> bool" where
  "rx_test fl r s = (rx_search fl r [] s \<noteq> None)"

text \<open>\<open>s.match(re)?.[n]\<close> for an expression without the flag \<open>g\<close>.\<close>

definition match_group :: "rflags \<Rightarrow> rx \<Rightarrow> nat \<Rightarrow> string \<Rightarrow> string option" where
  "match_group fl r n s =
     (case rx_search fl r [] s of
        None \<Rightarrow> None
      | Some (sk, st) \<Rightarrow> map_of (snd (snd st)) n)"

text \<open>
  The replacement text of \<open>replace\<close>: \<open>$$\<close>, \<open>$&\<close>, \<open>$`\<close> and \<open>$'\<close> stand for a dollar
  sign, the match, the text before it and the text after it. (The expressions
  that are replaced with a computed text have no capturing group, so \<open>$1\<close> stands
  for itself.)
\<close>

fun expand_replacement :: "string \<Rightarrow> string \<Rightarrow> string \<Rightarrow> string \<Rightarrow> string" where
  "expand_replacement before matched after [] = []"
| "expand_replacement before matched after [c] = [c]"
| "expand_replacement before matched after (c # d # cs) =
     (if c = CHR ''$'' \<and> d = CHR ''$'' then CHR ''$'' # expand_replacement before matched after cs
      else if c = CHR ''$'' \<and> d = CHR ''&'' then matched @ expand_replacement before matched after cs
      else if c = CHR ''$'' \<and> d = CHR 0x60 then before @ expand_replacement before matched after cs
      else if c = CHR ''$'' \<and> d = CHR 0x27 then after @ expand_replacement before matched after cs
      else c # expand_replacement before matched after (d # cs))"

text \<open>\<open>s.replace(re, repl)\<close> without the flag \<open>g\<close>: the first match only.\<close>

definition rx_replace :: "rflags \<Rightarrow> rx \<Rightarrow> string \<Rightarrow> string \<Rightarrow> string" where
  "rx_replace fl r repl s =
     (case rx_search fl r [] s of
        None \<Rightarrow> s
      | Some (sk, st) \<Rightarrow>
          (let after = fst (snd st);
               matched = take (length s - length sk - length after) (drop (length sk) s)
           in sk @ expand_replacement sk matched after repl @ after))"

text \<open>
  \<open>s.replace(re, repl)\<close> with the flag \<open>g\<close>, for a replacement text without a dollar
  sign: every match from the left; after an empty match the scan moves on by one
  code unit.
\<close>

function rx_replace_all :: "rflags \<Rightarrow> rx \<Rightarrow> string \<Rightarrow> string \<Rightarrow> string \<Rightarrow> string" where
  "rx_replace_all fl r repl bef s =
     (case rx_search fl r bef s of
        None \<Rightarrow> s
      | Some (sk, st) \<Rightarrow>
          if remaining st < length s - length sk
          then sk @ repl @ rx_replace_all fl r repl (fst st) (fst (snd st))
          else (case drop (length sk) s of
                  [] \<Rightarrow> sk @ repl
                | c # cs \<Rightarrow> sk @ repl @ c # rx_replace_all fl r repl (c # rev sk @ bef) cs))"
  by pat_completeness auto
termination
proof (relation "measure (\<lambda>(fl, r, repl, bef, s). length s)", goal_cases)
  case 1
  show ?case by simp
next
  case (2 fl r repl bef s x sk st)
  then show ?case by (simp add: remaining_def)
next
  case (3 fl r repl bef s x sk st c cs)
  have "length (drop (length sk) s) \<le> length s" by simp
  with 3 show ?case by simp
qed

declare rx_replace_all.simps [simp del]

text \<open>
  \<open>s.split(re)\<close> for a separator without capturing groups: the expression is tried
  at every position \<open>q\<close>; a match that ends where the current piece starts is
  skipped. \<open>piece\<close> is the current piece so far (reversed).
\<close>

function split_loop :: "rflags \<Rightarrow> rx \<Rightarrow> string \<Rightarrow> string \<Rightarrow> string \<Rightarrow> string list" where
  "split_loop fl r bef piece s =
     (case s of
        [] \<Rightarrow> [rev piece]
      | c # cs \<Rightarrow>
          (case rx_match fl r Some (bef, s, []) of
             None \<Rightarrow> split_loop fl r (c # bef) (c # piece) cs
           | Some st \<Rightarrow>
               if remaining st < length s
               then rev piece # split_loop fl r (fst st) [] (fst (snd st))
               else if piece \<noteq> []
               then rev piece # split_loop fl r bef [] s
               else split_loop fl r (c # bef) (c # piece) cs))"
  by pat_completeness auto
termination
  by (relation "measures [\<lambda>(fl, r, bef, piece, s). length s, \<lambda>(fl, r, bef, piece, s). length piece]")
     (auto simp: remaining_def)

declare split_loop.simps [simp del]

definition rx_split :: "rflags \<Rightarrow> rx \<Rightarrow> string \<Rightarrow> string list" where
  "rx_split fl r s =
     (if s = [] then (case rx_match fl r Some ([], [], []) of None \<Rightarrow> [[]] | Some st \<Rightarrow> [])
      else split_loop fl r [] [] s)"

text \<open>
  The loop \<open>while ((match = re.exec(text)))\<close> of an expression with the flag \<open>g\<close>:
  the captures of every match, from the left. \<open>lastIndex\<close> is the end of the match
  before; the loop is only used with an expression that cannot match the empty
  string.
\<close>

function exec_all :: "rflags \<Rightarrow> rx \<Rightarrow> string \<Rightarrow> string \<Rightarrow> (nat \<times> string) list list" where
  "exec_all fl r bef s =
     (case rx_search fl r bef s of
        None \<Rightarrow> []
      | Some (sk, st) \<Rightarrow>
          if remaining st < length s
          then snd (snd st) # exec_all fl r (fst st) (fst (snd st))
          else [snd (snd st)])"
  by pat_completeness auto
termination
  by (relation "measure (\<lambda>(fl, r, bef, s). length s)") (auto simp: remaining_def)

declare exec_all.simps [simp del]

subsection \<open>Writing expressions\<close>

definition str :: "string \<Rightarrow> rx" where
  "str s = foldr (\<lambda>c r. Seq (Lit c) r) s Eps"

definition seqs :: "rx list \<Rightarrow> rx" where
  "seqs rs = foldr Seq rs Eps"

definition alts :: "rx list \<Rightarrow> rx" where
  "alts rs = (case rs of [] \<Rightarrow> Eps | _ \<Rightarrow> foldr Alt (butlast rs) (last rs))"

definition star :: "rx \<Rightarrow> rx" where
  "star r = Rep True 0 None r"

definition plus :: "rx \<Rightarrow> rx" where
  "plus r = Rep True 1 None r"

definition opt :: "rx \<Rightarrow> rx" where
  "opt r = Rep True 0 (Some 1) r"

definition ws :: rx where
  "ws = Cls False [Space]"

definition flags_none :: rflags where
  "flags_none = \<lparr>ignoreCase = False, multiline = False\<rparr>"

definition flags_i :: rflags where
  "flags_i = \<lparr>ignoreCase = True, multiline = False\<rparr>"

definition flags_im :: rflags where
  "flags_im = \<lparr>ignoreCase = True, multiline = True\<rparr>"

section \<open>The persisted store (src/core/store.ts)\<close>

text \<open>
  The store is a SQLite database with the tables \<open>sessions\<close>, \<open>messages\<close>,
  \<open>pairings\<close> and \<open>memory_events\<close>. A table is the list of its rows in insertion
  order. Timestamps (\<open>new Date().toISOString()\<close>) are natural numbers read from a
  clock; the \<open>approved\<close> column is an INTEGER, as in the schema.
\<close>

datatype ChannelName = Webchat | Telegram

datatype Direction = Inbound | Outbound

datatype EventStatus = Saved | Failed

record pairing_row =
  p_channel :: ChannelName
  p_sender_id :: string
  p_approved :: int
  p_code :: string
  p_created_at :: nat

record session_row =
  s_id :: nat
  s_channel :: ChannelName
  s_sender_id :: string
  s_created_at :: nat
  s_updated_at :: nat

record message_row =
  m_id :: nat
  m_session_id :: nat
  m_direction :: Direction
  m_content :: string
  m_created_at :: nat

record event_row =
  e_session_key :: string
  e_status :: EventStatus
  e_detail :: "string option"
  e_created_at :: nat

text \<open>
  \<open>seq_sessions\<close> and \<open>seq_messages\<close> are the AUTOINCREMENT counters of the two
  tables (the largest row id handed out so far). \<open>clock\<close> is the wall clock behind
  \<open>now()\<close>: every reading returns the current value and moves it on by one.
  \<open>entropy\<close> is the random source behind \<open>randomInt\<close> and \<open>draws\<close> counts the
  numbers drawn from it.
\<close>

record store =
  pairings :: "pairing_row list"
  sessions :: "session_row list"
  messages :: "message_row list"
  memory_events :: "event_row list"
  seq_sessions :: nat
  seq_messages :: nat
  clock :: nat
  entropy :: "nat \<Rightarrow> nat"
  draws :: nat

definition now :: "store \<Rightarrow> nat \<times> store" where
  "now db = (clock db, db\<lparr>clock := Suc (clock db)\<rparr>)"

subsection \<open>approvePairing\<close>

text \<open>
  \<open>UPDATE pairings SET approved = 1 WHERE channel = ? AND code = ?\<close>: one pass over
  the table; \<open>changes\<close> counts the rows the WHERE clause selects, whatever their
  old value.
\<close>

definition pairing_matches :: "ChannelName \<Rightarrow> string \<Rightarrow> pairing_row \<Rightarrow> bool" where
  "pairing_matches ch c r = (p_channel r = ch \<and> p_code r = c)"

fun update_approved :: "ChannelName \<Rightarrow> string \<Rightarrow> pairing_row list \<Rightarrow> pairing_row list \<times> nat" where
  "update_approved ch c [] = ([], 0)"
| "update_approved ch c (r # rs) =
     (case update_approved ch c rs of (rs', changes) \<Rightarrow>
        if pairing_matches ch c r then (r\<lparr>p_approved := 1\<rparr> # rs', Suc changes)
        else (r # rs', changes))"

definition approvePairing :: "ChannelName \<Rightarrow> string \<Rightarrow> store \<Rightarrow> bool \<times> store" where
  "approvePairing ch c db =
     (case update_approved ch c (pairings db) of (rows, changes) \<Rightarrow>
        (changes > 0, db\<lparr>pairings := rows\<rparr>))"

subsection \<open>upsertPairing\<close>

text \<open>\<open>randomInt(100000, 999999)\<close> returns a number \<open>n\<close> with \<open>100000 \<le> n < 999999\<close>.\<close>

definition generatePairingCode :: "store \<Rightarrow> string \<times> store" where
  "generatePairingCode db =
     (show_nat (100000 + entropy db (draws db) mod 899999), db\<lparr>draws := Suc (draws db)\<rparr>)"

definition find_pairing :: "ChannelName \<Rightarrow> string \<Rightarrow> store \<Rightarrow> pairing_row option" where
  "find_pairing ch sid db = find (\<lambda>r. p_channel r = ch \<and> p_sender_id r = sid) (pairings db)"

definition upsertPairing :: "ChannelName \<Rightarrow> string \<Rightarrow> store \<Rightarrow> (bool \<times> string) \<times> store" where
  "upsertPairing ch sid db =
     (case find_pairing ch sid db of
        Some existing \<Rightarrow> ((p_approved existing = 1, p_code existing), db)
      | None \<Rightarrow>
          (case generatePairingCode db of (code, db1) \<Rightarrow>
            (case now db1 of (t, db2) \<Rightarrow>
               ((False, code),
                db2\<lparr>pairings := pairings db2 @
                   [\<lparr>p_channel = ch, p_sender_id = sid, p_approved = 0, p_code = code, p_created_at = t\<rparr>]\<rparr>))))"

subsection \<open>getOrCreateSession, addMessage, getRecentMessages, addMemoryEvent\<close>

text \<open>A thrown value: an \<open>Error\<close> object with its message, or anything else with its \<open>String(...)\<close>.\<close>

datatype thrown = Error string | NonError string

definition find_session :: "ChannelName \<Rightarrow> string \<Rightarrow> store \<Rightarrow> session_row option" where
  "find_session ch sid db = find (\<lambda>r. s_channel r = ch \<and> s_sender_id r = sid) (sessions db)"

text \<open>
  \<open>INSERT OR IGNORE\<close> inserts unless a row with the same (channel, sender_id) exists
  (the UNIQUE constraint); only then the UPDATE and the SELECT run. The key of an
  AUTOINCREMENT column is taken before the constraint is checked, so an INSERT that
  is ignored uses up an id as well.
\<close>

definition getOrCreateSession :: "ChannelName \<Rightarrow> string \<Rightarrow> store \<Rightarrow> (thrown + nat) \<times> store" where
  "getOrCreateSession ch sid db =
     (case now db of (t, db1) \<Rightarrow>
      (case find_session ch sid db1 of
        None \<Rightarrow>
          (Inr (Suc (seq_sessions db1)),
           db1\<lparr>sessions := sessions db1 @
                 [\<lparr>s_id = Suc (seq_sessions db1), s_channel = ch, s_sender_id = sid,
                   s_created_at = t, s_updated_at = t\<rparr>],
               seq_sessions := Suc (seq_sessions db1)\<rparr>)
      | Some _ \<Rightarrow>
          (let db2 = db1\<lparr>sessions :=
                 map (\<lambda>r. if s_channel r = ch \<and> s_sender_id r = sid then r\<lparr>s_updated_at := t\<rparr> else r)
                     (sessions db1),
                 seq_sessions := Suc (seq_sessions db1)\<rparr>
           in (case find_session ch sid db2 of
                 None \<Rightarrow> (Inl (Error ''Failed to resolve session''), db2)
               | Some row \<Rightarrow> (Inr (s_id row), db2)))))"

definition addMessage :: "nat \<Rightarrow> Direction \<Rightarrow> string \<Rightarrow> store \<Rightarrow> nat \<times> store" where
  "addMessage sessionId dir content db =
     (case now db of (t, db1) \<Rightarrow>
        (Suc (seq_messages db1),
         db1\<lparr>messages := messages db1 @
               [\<lparr>m_id = Suc (seq_messages db1), m_session_id = sessionId, m_direction = dir,
                 m_content = content, m_created_at = t\<rparr>],
             seq_messages := Suc (seq_messages db1)\<rparr>))"

text \<open>\<open>ORDER BY id DESC LIMIT ?\<close>, then \<open>reverse()\<close>; the table is in id order.\<close>

definition getRecentMessages :: "nat \<Rightarrow> nat \<Rightarrow> store \<Rightarrow> message_row list" where
  "getRecentMessages sessionId limit db =
     rev (take limit (rev (filter (\<lambda>m. m_session_id m = sessionId) (messages db))))"

definition addMemoryEvent :: "string \<Rightarrow> EventStatus \<Rightarrow> string option \<Rightarrow> store \<Rightarrow> store" where
  "addMemoryEvent sessionKey status detail db =
     (case now db of (t, db1) \<Rightarrow>
        db1\<lparr>memory_events := memory_events db1 @
              [\<lparr>e_session_key = sessionKey, e_status = status, e_detail = detail, e_created_at = t\<rparr>]\<rparr>)"

section \<open>Agent action protocol (src/core/actions.ts)\<close>

subsection \<open>JSON values\<close>

text \<open>
  The value \<open>JSON.parse\<close> returns. An object is the list of its own properties;
  a property read is \<open>map_of\<close>. A number is kept as an integer (the only number the
  protocol reads is \<open>timeoutMs\<close>, which it passes on unchanged). \<open>JSON.parse\<close> itself
  is a parameter \<open>jp\<close> of everything that calls it: \<open>None\<close> is the thrown SyntaxError.
\<close>

datatype json =
    JNull
  | JBool bool
  | JNum int
  | JStr string
  | JArr "json list"
  | JObj "(string \<times> json) list"

datatype AgentAction =
    Shell string "int option"
  | InstallSkill string string
  | Integration string string "(string \<times> json) list option"

definition safeJsonParse :: "(string \<Rightarrow> json option) \<Rightarrow> string \<Rightarrow> json" where
  "safeJsonParse jp v = (case jp v of None \<Rightarrow> JNull | Some j \<Rightarrow> j)"

text \<open>\<open>!payload\<close> and \<open>typeof payload\<close>.\<close>

fun falsy :: "json \<Rightarrow> bool" where
  "falsy JNull = True"
| "falsy (JBool b) = (\<not> b)"
| "falsy (JNum n) = (n = 0)"
| "falsy (JStr s) = (s = [])"
| "falsy (JArr xs) = False"
| "falsy (JObj kv) = False"

fun typeof :: "json \<Rightarrow> string" where
  "typeof JNull = ''object''"
| "typeof (JBool b) = ''boolean''"
| "typeof (JNum n) = ''number''"
| "typeof (JStr s) = ''string''"
| "typeof (JArr xs) = ''object''"
| "typeof (JObj kv) = ''object''"

text \<open>
  \<open>record.key\<close> on the parsed payload: an own property of an object; an array has
  none of the names the protocol reads.
\<close>

fun field_of :: "json \<Rightarrow> string \<Rightarrow> json option" where
  "field_of (JObj kv) k = map_of kv k"
| "field_of j k = None"

fun as_string :: "json option \<Rightarrow> string option" where
  "as_string (Some (JStr s)) = Some s"
| "as_string j = None"

fun as_number :: "json option \<Rightarrow> int option" where
  "as_number (Some (JNum n)) = Some n"
| "as_number j = None"

text \<open>\<open>record.params && typeof record.params === "object" && !Array.isArray(record.params)\<close>\<close>

fun as_params :: "json option \<Rightarrow> (string \<times> json) list option" where
  "as_params (Some (JObj kv)) = Some kv"
| "as_params j = None"

subsection \<open>parseAgentActions\<close>

definition marker :: string where
  "marker = ''```gnami-action''"

definition fence :: string where
  "fence = ''```''"

text \<open>
  One attempt of \<open>/```gnami-action\s*([\s\S]*?)```/\<close> at the head of the text: the
  marker, then the greedy \<open>\s*\<close>, then the shortest text up to a closing fence.
  The result is capture group 1 and the text after the match. (Giving back white
  space of \<open>\s*\<close> cannot produce a match that the full run does not: the closing
  fence is searched in the same text, and white space holds no backtick.)
\<close>

definition action_at :: "string \<Rightarrow> (string \<times> string) option" where
  "action_at s =
     (case strip_prefix marker s of
        None \<Rightarrow> None
      | Some r \<Rightarrow> split_first fence (dropWhile is_space r))"

text \<open>\<open>pattern.exec(text)\<close> from \<open>lastIndex\<close>; the argument is the text from there on.\<close>

definition exec_action :: "string \<Rightarrow> (string \<times> string \<times> string) option" where
  "exec_action s = search action_at s"

text \<open>The body of the while loop: what one match pushes onto \<open>actions\<close>.\<close>

definition block_actions :: "(string \<Rightarrow> json option) \<Rightarrow> string \<Rightarrow> AgentAction list" where
  "block_actions jp cap =
     (let payload = safeJsonParse jp (trim cap) in
      if falsy payload \<or> typeof payload \<noteq> ''object'' then []
      else
        (if field_of payload ''type'' = Some (JStr ''shell'') \<and> as_string (field_of payload ''command'') \<noteq> None
         then [Shell (the (as_string (field_of payload ''command''))) (as_number (field_of payload ''timeoutMs''))]
         else [])
        @ (if field_of payload ''type'' = Some (JStr ''install_skill'')
              \<and> as_string (field_of payload ''name'') \<noteq> None
              \<and> as_string (field_of payload ''content'') \<noteq> None
           then [InstallSkill (the (as_string (field_of payload ''name'')))
                              (the (as_string (field_of payload ''content'')))]
           else [])
        @ (if field_of payload ''type'' = Some (JStr ''integration'')
              \<and> as_string (field_of payload ''app'') \<noteq> None
              \<and> as_string (field_of payload ''action'') \<noteq> None
           then [Integration (the (as_string (field_of payload ''app'')))
                             (the (as_string (field_of payload ''action'')))
                             (as_params (field_of payload ''params''))]
           else []))"

subsection \<open>Every match consumes text\<close>

lemma strip_prefix_length:
  "strip_prefix p s = Some r \<Longrightarrow> length s = length p + length r"
  by (induction p s rule: strip_prefix.induct) (auto split: if_splits)

lemma split_first_length:
  "split_first p s = Some (a, r) \<Longrightarrow> length s = length a + length p + length r"
proof (induction s arbitrary: a r)
  case Nil
  then show ?case by (auto split: if_splits)
next
  case (Cons c cs)
  show ?case
  proof (cases "strip_prefix p (c # cs)")
    case None
    with Cons.prems obtain a' where "split_first p cs = Some (a', r)" "a = c # a'"
      by (auto split: option.splits)
    with Cons.IH show ?thesis by simp
  next
    case (Some r')
    with Cons.prems have "a = []" "r' = r" by auto
    with Some strip_prefix_length [of p "c # cs" r] show ?thesis by simp
  qed
qed

lemma search_length:
  assumes "\<And>t r. f t = Some r \<Longrightarrow> length (rest r) < length t"
  shows "search f s = Some (b, r) \<Longrightarrow> length (rest r) < length s"
proof (induction s arbitrary: b)
  case Nil
  then show ?case using assms [of "[]"] by (auto split: option.splits)
next
  case (Cons c cs)
  show ?case
  proof (cases "f (c # cs)")
    case None
    with Cons.prems obtain b' where "search f cs = Some (b', r)"
      by (auto split: option.splits)
    with Cons.IH have "length (rest r) < length cs" by simp
    then show ?thesis by simp
  next
    case (Some r')
    with Cons.prems have "r' = r" by auto
    with Some assms [of "c # cs" r] show ?thesis by simp
  qed
qed

lemma action_at_length:
  "action_at s = Some (cap, r) \<Longrightarrow> length r < length s"
proof -
  assume a: "action_at s = Some (cap, r)"
  then obtain t where t: "strip_prefix marker s = Some t"
    and sp: "split_first fence (dropWhile is_space t) = Some (cap, r)"
    by (auto simp: action_at_def split: option.splits)
  have "length r \<le> length (dropWhile is_space t)"
    using split_first_length [OF sp] by simp
  also have "\<dots> \<le> length t"
    by (rule length_dropWhile_le)
  also have "\<dots> < length s"
    using strip_prefix_length [OF t] by (simp add: marker_def)
  finally show ?thesis .
qed

lemma exec_action_length:
  "exec_action s = Some (b, cap, r) \<Longrightarrow> length r < length s"
  unfolding exec_action_def
  using search_length [of action_at "snd" s b "(cap, r)"] action_at_length
  by auto

text \<open>
  The while loop of \<open>parseAgentActions\<close>: \<open>exec\<close> until it returns null, each match
  handled by the loop body. A match is never empty, so \<open>lastIndex\<close> moves on.
\<close>

function parse_loop :: "(string \<Rightarrow> json option) \<Rightarrow> string \<Rightarrow> AgentAction list \<Rightarrow> AgentAction list" where
  "parse_loop jp text actions =
     (case exec_action text of
        None \<Rightarrow> actions
      | Some (b, cap, r) \<Rightarrow> parse_loop jp r (actions @ block_actions jp cap))"
  by pat_completeness auto
termination
  by (relation "measure (\<lambda>(jp, text, actions). length text)")
     (auto dest: exec_action_length)

declare parse_loop.simps [simp del]

definition parseAgentActions :: "(string \<Rightarrow> json option) \<Rightarrow> string \<Rightarrow> AgentAction list" where
  "parseAgentActions jp text = parse_loop jp text []"

text \<open>
  A well-formed block, in the words of the specification: its body parses as a JSON
  object of a known variant, which is \<open>shell\<close> with a string \<open>command\<close>,
  \<open>install_skill\<close> with a string \<open>name\<close> and a string \<open>content\<close>, or \<open>integration\<close>
  with a string \<open>app\<close> and a string \<open>action\<close>. \<open>block_action\<close> is the action such a
  block asks for.
\<close>

definition known_variant :: "(string \<times> json) list \<Rightarrow> AgentAction option" where
  "known_variant kv =
     (case map_of kv ''type'' of
        Some (JStr ty) \<Rightarrow>
          if ty = ''shell'' then
            (case map_of kv ''command'' of
               Some (JStr c) \<Rightarrow> Some (Shell c (as_number (map_of kv ''timeoutMs'')))
             | _ \<Rightarrow> None)
          else if ty = ''install_skill'' then
            (case (map_of kv ''name'', map_of kv ''content'') of
               (Some (JStr n), Some (JStr c)) \<Rightarrow> Some (InstallSkill n c)
             | _ \<Rightarrow> None)
          else if ty = ''integration'' then
            (case (map_of kv ''app'', map_of kv ''action'') of
               (Some (JStr a), Some (JStr act)) \<Rightarrow> Some (Integration a act (as_params (map_of kv ''params'')))
             | _ \<Rightarrow> None)
          else None
      | _ \<Rightarrow> None)"

definition block_action :: "(string \<Rightarrow> json option) \<Rightarrow> string \<Rightarrow> AgentAction option" where
  "block_action jp body =
     (case jp (trim body) of
        Some (JObj kv) \<Rightarrow> known_variant kv
      | _ \<Rightarrow> None)"

definition well_formed :: "(string \<Rightarrow> json option) \<Rightarrow> string \<Rightarrow> bool" where
  "well_formed jp body = (block_action jp body \<noteq> None)"

subsection \<open>stripAgentActions\<close>

text \<open>
  One attempt of \<open>/```gnami-action[\s\S]*?```/\<close> at the head of the text; the result
  is the text after the match.
\<close>

definition strip_at :: "string \<Rightarrow> string option" where
  "strip_at s =
     (case strip_prefix marker s of
        None \<Rightarrow> None
      | Some r \<Rightarrow> (case split_first fence r of
                    None \<Rightarrow> None
                  | Some (body, rest) \<Rightarrow> Some rest))"

lemma strip_at_length:
  "strip_at s = Some r \<Longrightarrow> length r < length s"
proof -
  assume a: "strip_at s = Some r"
  then obtain t body where t: "strip_prefix marker s = Some t"
    and sp: "split_first fence t = Some (body, r)"
    by (auto simp: strip_at_def split: option.splits)
  have "length r \<le> length t"
    using split_first_length [OF sp] by simp
  also have "\<dots> < length s"
    using strip_prefix_length [OF t] by (simp add: marker_def)
  finally show ?thesis .
qed

lemma search_strip_at_length:
  "search strip_at s = Some (b, r) \<Longrightarrow> length r < length s"
  using search_length [of strip_at "\<lambda>r. r" s b r] strip_at_length
  by auto

text \<open>\<open>text.replace(pattern, "")\<close> with the flag \<open>g\<close>: every match, from the left, removed.\<close>

function strip_all :: "string \<Rightarrow> string" where
  "strip_all s =
     (case search strip_at s of
        None \<Rightarrow> s
      | Some (before, rest) \<Rightarrow> before @ strip_all rest)"
  by pat_completeness auto
termination
  by (relation "measure length") (auto dest: search_strip_at_length)

declare strip_all.simps [simp del]

definition stripAgentActions :: "string \<Rightarrow> string" where
  "stripAgentActions text = trim (strip_all text)"

section \<open>Fenced action blocks, in the words of the specification\<close>

text \<open>
  A fenced action block of a text starts with the marker and ends with the first
  fence after the marker. \<open>first_block text pre body rest\<close>: the first block of
  \<open>text\<close> has \<open>pre\<close> before its marker, \<open>body\<close> between its marker and its closing
  fence, and \<open>rest\<close> after the closing fence; no marker starts inside \<open>pre\<close>, and no
  fence starts inside \<open>body\<close>. \<open>no_block text\<close>: no marker in \<open>text\<close> is followed by
  a fence.
\<close>

definition first_block :: "string \<Rightarrow> string \<Rightarrow> string \<Rightarrow> string \<Rightarrow> bool" where
  "first_block text pre body rest =
     (text = pre @ marker @ body @ fence @ rest
      \<and> \<not> sublist marker (pre @ butlast marker)
      \<and> \<not> sublist fence (body @ butlast fence))"

definition no_block :: "string \<Rightarrow> bool" where
  "no_block text = (\<nexists>pre body rest. text = pre @ marker @ body @ fence @ rest)"

text \<open>
  One scan of a text from left to right: the bodies of the blocks it finds, each
  block looked for in the text after the one before, and the pieces of the text
  outside the blocks; the last piece is the text after the last block.
\<close>

inductive scan :: "string \<Rightarrow> string list \<Rightarrow> string list \<Rightarrow> bool" where
  scan_end: "no_block text \<Longrightarrow> scan text [] [text]"
| scan_block: "first_block text pre body rest \<Longrightarrow> scan rest bodies pieces
               \<Longrightarrow> scan text (body # bodies) (pre # pieces)"

text \<open>
  A marker assembled across a removed block: at a joint of two pieces, the text
  before the joint ends with the first characters of the marker and the text after
  it begins with the remaining ones.
\<close>

definition assembled :: "string list \<Rightarrow> bool" where
  "assembled pieces =
     (\<exists>k \<in> {1 ..< length pieces}. \<exists>i \<in> {1 ..< length marker}.
        suffix (take i marker) (concat (take k pieces))
        \<and> prefix (drop i marker) (concat (drop k pieces)))"

section \<open>The world of a turn\<close>

text \<open>
  Everything a turn reads and writes: the store, the workspace documents and the
  installed skills (files, by name), the assistant name of the configuration in
  memory and of the configuration file, the calls of \<open>message.reply\<close> so far
  (\<open>outbox\<close>, oldest first), the errors given to the logger, and the state \<open>ext\<close>
  of everything outside the process (model provider, memory service, child
  processes, integrations, channels). One turn runs from start to end on this
  state; turns that interleave are outside the model.

  An operation on the workspace directory can be rejected by the file system:
  \<open>fs_fault\<close> gives the error of an operation that is, and stays the same
  throughout a turn.
\<close>

datatype fs_op = Mkdir | ReadFile string | WriteFile string

record 'x world =
  store :: store
  files :: "string \<Rightarrow> string option"
  fs_fault :: "fs_op \<Rightarrow> thrown option"
  skills :: "string \<Rightarrow> string option"
  assistantName :: "string option"
  config_file :: "string option"
  outbox :: "string list"
  logged :: "thrown list"
  ext :: 'x

text \<open>
  An asynchronous function: it ends with a thrown value or with a result, and
  leaves a world behind either way.
\<close>

type_synonym ('a, 'x) io = "'x world \<Rightarrow> (thrown + 'a) \<times> 'x world"

definition ret :: "'a \<Rightarrow> ('a, 'x) io" where
  "ret v w = (Inr v, w)"

definition throw :: "thrown \<Rightarrow> ('a, 'x) io" where
  "throw e w = (Inl e, w)"

definition bnd :: "('a, 'x) io \<Rightarrow> ('a \<Rightarrow> ('b, 'x) io) \<Rightarrow> ('b, 'x) io" where
  "bnd f g w = (case f w of (Inl e, w') \<Rightarrow> (Inl e, w') | (Inr v, w') \<Rightarrow> g v w')"

definition try_catch :: "('a, 'x) io \<Rightarrow> (thrown \<Rightarrow> ('a, 'x) io) \<Rightarrow> ('a, 'x) io" where
  "try_catch f h w = (case f w of (Inl e, w') \<Rightarrow> h e w' | (Inr v, w') \<Rightarrow> (Inr v, w'))"

text \<open>A call of a collaborator outside the process, and a call of the store.\<close>

definition run_ext :: "('x \<Rightarrow> (thrown + 'a) \<times> 'x) \<Rightarrow> ('a, 'x) io" where
  "run_ext f w = (case f (ext w) of (r, x') \<Rightarrow> (r, w\<lparr>ext := x'\<rparr>))"

definition on_db :: "(store \<Rightarrow> 'a \<times> store) \<Rightarrow> ('a, 'x) io" where
  "on_db f w = (case f (store w) of (v, db') \<Rightarrow> (Inr v, w\<lparr>store := db'\<rparr>))"

definition on_db_throwing :: "(store \<Rightarrow> (thrown + 'a) \<times> store) \<Rightarrow> ('a, 'x) io" where
  "on_db_throwing f w = (case f (store w) of (r, db') \<Rightarrow> (r, w\<lparr>store := db'\<rparr>))"

text \<open>\<open>error instanceof Error ? error.message : String(error)\<close>\<close>

fun message_of :: "thrown \<Rightarrow> string" where
  "message_of (Error msg) = msg"
| "message_of (NonError s) = s"

subsection \<open>Collaborators\<close>

text \<open>
  What the child process of \<open>execShell\<close> does first: the \<open>error\<close> event, the \<open>exit\<close>
  event (with the output so far and the exit code, null after a signal), or
  nothing before the timer.
\<close>

datatype proc_outcome =
    SpawnError thrown
  | Exited string string "int option"
  | TimedOut

record AgentRequest =
  a_input :: string
  a_history :: "message_row list"
  a_thinking :: string
  a_memoryContext :: string

text \<open>
  The functions of the language and of the collaborators, as parameters:
  \<open>JSON.parse\<close> and \<open>JSON.stringify\<close>, the child process, the integration runtime,
  the model provider (\<open>agent.respond\<close>), the memory service (the write operations
  return the name of the backend), and the message of the error that the
  validation of the configuration throws.
\<close>

record 'x env =
  json_parse :: "string \<Rightarrow> json option"
  json_stringify :: "json \<Rightarrow> string"
  spawn :: "string \<Rightarrow> int \<Rightarrow> 'x \<Rightarrow> proc_outcome \<times> 'x"
  integrations_exec :: "string \<Rightarrow> string \<Rightarrow> (string \<times> json) list option \<Rightarrow> 'x \<Rightarrow> (thrown + json) \<times> 'x"
  respond :: "AgentRequest \<Rightarrow> 'x \<Rightarrow> (thrown + string) \<times> 'x"
  memory_getContext :: "string \<Rightarrow> string \<Rightarrow> string \<Rightarrow> 'x \<Rightarrow> (thrown + string) \<times> 'x"
  memory_addConversationMemory :: "string \<Rightarrow> string \<Rightarrow> string \<Rightarrow> 'x \<Rightarrow> (thrown + string) \<times> 'x"
  memory_addSkillMemory :: "string \<Rightarrow> string \<Rightarrow> string \<Rightarrow> 'x \<Rightarrow> (thrown + string) \<times> 'x"
  memory_findSkill :: "string \<Rightarrow> string \<Rightarrow> 'x \<Rightarrow> (thrown + string option) \<times> 'x"
  config_invalid :: string

section \<open>Skills (src/core/skills.ts)\<close>

text \<open>
  \<open>input.toLowerCase().replace(/[^a-z0-9]+/g, "-").replace(/(^-|-$)/g, "").slice(0, 80)\<close>
\<close>

definition slugify :: "string \<Rightarrow> string" where
  "slugify input =
     take 80
       (rx_replace_all flags_none
          (Grp 1 (Alt (Seq Bol (Lit CHR ''-'')) (Seq (Lit CHR ''-'') Eol))) [] []
          (rx_replace_all flags_none
             (plus (Cls True [Rng CHR ''a'' CHR ''z'', Rng CHR ''0'' CHR ''9''])) ''-'' []
             (toLowerCase input)))"

text \<open>The files of the skills directory are kept by slug; writing a file does not fail.\<close>

definition installSkill :: "string \<Rightarrow> string \<Rightarrow> (string, 'x) io" where
  "installSkill name content =
     (let skillSlug = slugify name in
      if skillSlug = [] then throw (Error ''Skill name must include letters or numbers.'')
      else (\<lambda>w. (Inr skillSlug, w\<lparr>skills := (skills w)(skillSlug \<mapsto> content)\<rparr>)))"

definition hasSkill :: "string \<Rightarrow> (bool, 'x) io" where
  "hasSkill name = (\<lambda>w. (Inr (skills w (slugify name) \<noteq> None), w))"

section \<open>Executing actions (src/core/actions.ts)\<close>

record ActionResult =
  r_action :: AgentAction
  r_ok :: bool
  r_output :: string

text \<open>
  \<open>execShell\<close>: the promise is rejected by the timer or by the \<open>error\<close> event, and
  settled by the \<open>exit\<close> event according to the exit code.
\<close>

definition execShell :: "'x env \<Rightarrow> string \<Rightarrow> int \<Rightarrow> (string, 'x) io" where
  "execShell env command timeoutMs =
     bnd (\<lambda>w. case spawn env command timeoutMs (ext w) of (outcome, x') \<Rightarrow> (Inr outcome, w\<lparr>ext := x'\<rparr>))
       (\<lambda>outcome.
          case outcome of
            TimedOut \<Rightarrow> throw (Error (''Shell command timed out after '' @ show_int timeoutMs @ ''ms''))
          | SpawnError error \<Rightarrow> throw error
          | Exited out err code \<Rightarrow>
              (let output = join [CHR 0x0A] (filter (\<lambda>s. s \<noteq> []) [trim out, trim err]) in
               if code = Some 0 then ret (if output = [] then ''(no output)'' else output)
               else throw (Error (if output \<noteq> [] then output
                                  else ''Command failed with exit code '' @
                                       (case code of None \<Rightarrow> ''unknown'' | Some c \<Rightarrow> show_int c)))))"

text \<open>
  The body of the \<open>try\<close> block for one action: the output of the action, or what it
  throws. \<open>integ\<close> is \<open>options?.integrations\<close>. (The last line of the block,
  "Unsupported action type.", is for a value outside the three variants.)
\<close>

fun run_action :: "'x env \<Rightarrow> bool \<Rightarrow> AgentAction \<Rightarrow> (string, 'x) io" where
  "run_action env integ (Shell command timeoutMs) =
     execShell env command (case timeoutMs of None \<Rightarrow> 60000 | Some t \<Rightarrow> t)"
| "run_action env integ (InstallSkill name content) =
     bnd (installSkill name content) (\<lambda>skillId. ret (''Installed skill: '' @ skillId))"
| "run_action env integ (Integration app action params) =
     (if \<not> integ then throw (Error ''Integration runtime is not available.'')
      else bnd (run_ext (integrations_exec env app action params))
             (\<lambda>result. ret (json_stringify env result)))"

text \<open>The \<open>for\<close> loop with its \<open>try\<close> and \<open>catch\<close>; \<open>results\<close> is the list pushed to.\<close>

fun execute_loop :: "'x env \<Rightarrow> bool \<Rightarrow> AgentAction list \<Rightarrow> ActionResult list \<Rightarrow> 'x world
    \<Rightarrow> ActionResult list \<times> 'x world" where
  "execute_loop env integ [] results w = (results, w)"
| "execute_loop env integ (action # rest) results w =
     (case run_action env integ action w of
        (Inr output, w') \<Rightarrow>
          execute_loop env integ rest
            (results @ [\<lparr>r_action = action, r_ok = True, r_output = output\<rparr>]) w'
      | (Inl error, w') \<Rightarrow>
          execute_loop env integ rest
            (results @ [\<lparr>r_action = action, r_ok = False, r_output = message_of error\<rparr>]) w')"

definition executeAgentActions :: "'x env \<Rightarrow> bool \<Rightarrow> AgentAction list \<Rightarrow> 'x world
    \<Rightarrow> ActionResult list \<times> 'x world" where
  "executeAgentActions env integ actions w = execute_loop env integ actions [] w"

section \<open>Workspace documents (src/core/workspace.ts)\<close>

text \<open>The texts of \<open>DOC_TEMPLATES\<close> and of \<open>LEGACY_DOC_TEMPLATES\<close>.\<close>

definition AGENTS_template :: string where
  "AGENTS_template =
     ''# AGENTS\<newline>\<newline>Primary objective: be a reliable, practical personal assistant.\<newline>''"

definition SOUL_template :: string where
  "SOUL_template =
     ''# SOUL\<newline>\<newline>You are GnamiBot.\<newline>You are the user'' @ [CHR 0x27]
     @ ''s personal, local-first assistant.\<newline>Your identity is stable: concise, pragmatic, action-oriented, and technically rigorous.\<newline>Never claim to be generic or anonymous.\<newline>''"

definition MEMORY_template :: string where
  "MEMORY_template =
     ''# MEMORY\<newline>\<newline>Core persistent facts:\<newline>- Assistant name: GnamiBot\<newline>- Role: personal local-first AI assistant\<newline>\<newline>Add user preferences and durable facts below.\<newline>''"

definition TOOLS_template :: string where
  "TOOLS_template =
     ''# TOOLS\<newline>\<newline>Document preferred tools and operating procedures.\<newline>''"

definition AGENTS_legacy :: string where
  "AGENTS_legacy = ''# AGENTS\<newline>\<newline>Define assistant behavior, goals, and boundaries.\<newline>''"

definition SOUL_legacy :: string where
  "SOUL_legacy = ''# SOUL\<newline>\<newline>Define identity, tone, and long-term personality.\<newline>''"

definition MEMORY_legacy :: string where
  "MEMORY_legacy = ''# MEMORY\<newline>\<newline>Store durable user preferences and recurring facts.\<newline>''"

definition TOOLS_legacy :: string where
  "TOOLS_legacy = ''# TOOLS\<newline>\<newline>Document preferred tools and operating procedures.\<newline>''"

definition DOC_TEMPLATES :: "(string \<times> string) list" where
  "DOC_TEMPLATES =
     [(''AGENTS.md'', AGENTS_template), (''SOUL.md'', SOUL_template),
      (''MEMORY.md'', MEMORY_template), (''TOOLS.md'', TOOLS_template)]"

definition LEGACY_DOC_TEMPLATES :: "(string \<times> string) list" where
  "LEGACY_DOC_TEMPLATES =
     [(''AGENTS.md'', AGENTS_legacy), (''SOUL.md'', SOUL_legacy),
      (''MEMORY.md'', MEMORY_legacy), (''TOOLS.md'', TOOLS_legacy)]"

definition normalizeDocName :: "string \<Rightarrow> thrown + string" where
  "normalizeDocName name =
     (case map_of (map (\<lambda>(n, t). (toUpperCase n, n)) DOC_TEMPLATES) (toUpperCase (trim name)) of
        None \<Rightarrow> Inl (Error (''Unsupported workspace doc: '' @ name))
      | Some canonical \<Rightarrow> Inr canonical)"

text \<open>
  \<open>mkdir\<close>, \<open>readFile\<close> and \<open>writeFile\<close> on the workspace directory. Each is rejected
  with the error the file system has for it, if it has one; reading a file that
  does not exist is rejected as well.
\<close>

definition mkdir_workspace :: "(unit, 'x) io" where
  "mkdir_workspace w = (case fs_fault w Mkdir of Some error \<Rightarrow> (Inl error, w) | None \<Rightarrow> (Inr (), w))"

definition readFile :: "string \<Rightarrow> (string, 'x) io" where
  "readFile name w =
     (case fs_fault w (ReadFile name) of
        Some error \<Rightarrow> (Inl error, w)
      | None \<Rightarrow> (case files w name of
                  None \<Rightarrow> (Inl (Error ''ENOENT''), w)
                | Some content \<Rightarrow> (Inr content, w)))"

definition writeFile :: "string \<Rightarrow> string \<Rightarrow> (unit, 'x) io" where
  "writeFile name content w =
     (case fs_fault w (WriteFile name) of
        Some error \<Rightarrow> (Inl error, w)
      | None \<Rightarrow> (Inr (), w\<lparr>files := (files w)(name \<mapsto> content)\<rparr>))"

text \<open>
  \<open>ensureWorkspaceDocs\<close>, the body of its loop for one document: a file that still
  holds the legacy template is written from its template; whatever the \<open>try\<close> block
  throws (a file that cannot be read, a write that fails) is caught, and the file
  is written from its template.
\<close>

definition ensure_doc :: "string \<times> string \<Rightarrow> (unit, 'x) io" where
  "ensure_doc entry =
     (case entry of (name, template) \<Rightarrow>
        try_catch
          (bnd (readFile name) (\<lambda>existing.
             (case map_of LEGACY_DOC_TEMPLATES name of
                None \<Rightarrow> ret ()
              | Some legacy \<Rightarrow>
                  if legacy \<noteq> [] \<and> trim existing = trim legacy then writeFile name template
                  else ret ())))
          (\<lambda>error. writeFile name template))"

fun ensure_docs :: "(string \<times> string) list \<Rightarrow> (unit, 'x) io" where
  "ensure_docs [] = ret ()"
| "ensure_docs (entry # entries) = bnd (ensure_doc entry) (\<lambda>u. ensure_docs entries)"

definition ensureWorkspaceDocs :: "(unit, 'x) io" where
  "ensureWorkspaceDocs = bnd mkdir_workspace (\<lambda>u. ensure_docs DOC_TEMPLATES)"

definition readWorkspaceDoc :: "string \<Rightarrow> (string, 'x) io" where
  "readWorkspaceDoc name =
     bnd ensureWorkspaceDocs (\<lambda>u.
       case normalizeDocName name of
         Inl error \<Rightarrow> throw error
       | Inr normalized \<Rightarrow> readFile normalized)"

definition writeWorkspaceDoc :: "string \<Rightarrow> string \<Rightarrow> (unit, 'x) io" where
  "writeWorkspaceDoc name content =
     bnd ensureWorkspaceDocs (\<lambda>u.
       case normalizeDocName name of
         Inl error \<Rightarrow> throw error
       | Inr normalized \<Rightarrow> writeFile normalized content)"

text \<open>\<open>readWorkspaceDocs\<close>: every document by name, in the order of the templates.\<close>

fun read_all :: "string list \<Rightarrow> ((string \<times> string) list, 'x) io" where
  "read_all [] = ret []"
| "read_all (name # names) =
     bnd (readWorkspaceDoc name) (\<lambda>content.
       bnd (read_all names) (\<lambda>others. ret ((name, content) # others)))"

definition readWorkspaceDocs :: "((string \<times> string) list, 'x) io" where
  "readWorkspaceDocs = bnd ensureWorkspaceDocs (\<lambda>u. read_all (map fst DOC_TEMPLATES))"

text \<open>\<open>s.match(re)?.[1]?.trim()\<close>, and \<open>a || b\<close> when \<open>a\<close> may be undefined.\<close>

definition match_trim :: "rflags \<Rightarrow> rx \<Rightarrow> string \<Rightarrow> string option" where
  "match_trim fl r s = map_option trim (match_group fl r 1 s)"

definition truthy :: "string option \<Rightarrow> bool" where
  "truthy v = (case v of None \<Rightarrow> False | Some s \<Rightarrow> s \<noteq> [])"

definition or_else :: "string option \<Rightarrow> string \<Rightarrow> string" where
  "or_else v d = (case v of None \<Rightarrow> d | Some s \<Rightarrow> if s \<noteq> [] then s else d)"

definition not_line_break :: rx where
  "not_line_break = Cls True [Ch (CHR 0x0A), Ch (CHR 0x0D)]"

text \<open>\<open>/assistant\s*name\s*:\s*([^\n\r]+)/i\<close> and \<open>/you are\s+([a-z0-9_-]+)/i\<close>\<close>

definition rx_assistant_name :: rx where
  "rx_assistant_name =
     seqs [str ''assistant'', star ws, str ''name'', star ws, Lit CHR '':'', star ws,
           Grp 1 (plus not_line_break)]"

definition rx_you_are_word :: rx where
  "rx_you_are_word =
     seqs [str ''you are'', plus ws,
           Grp 1 (plus (Cls False [Rng CHR ''a'' CHR ''z'', Rng CHR ''0'' CHR ''9'',
                                   Ch CHR ''_'', Ch CHR ''-'']))]"

definition resolveAssistantNameFromDocs :: "(string \<times> string) list \<Rightarrow> string \<Rightarrow> string" where
  "resolveAssistantNameFromDocs docs fallback =
     (let memory = (case map_of docs ''MEMORY.md'' of None \<Rightarrow> [] | Some d \<Rightarrow> d);
          soul = (case map_of docs ''SOUL.md'' of None \<Rightarrow> [] | Some d \<Rightarrow> d);
          explicit = match_trim flags_i rx_assistant_name memory
      in if truthy explicit then the explicit
         else (let soulName = match_trim flags_i rx_you_are_word soul
               in if truthy soulName then the soulName else fallback))"

text \<open>\<open>resolveAssistantName(fallback = "GnamiBot")\<close>; the argument may be undefined.\<close>

definition resolveAssistantName :: "string option \<Rightarrow> (string, 'x) io" where
  "resolveAssistantName fallback =
     bnd readWorkspaceDocs (\<lambda>docs.
       ret (resolveAssistantNameFromDocs docs (case fallback of None \<Rightarrow> ''GnamiBot'' | Some f \<Rightarrow> f)))"

definition buildWorkspaceContext :: "(string, 'x) io" where
  "buildWorkspaceContext =
     bnd readWorkspaceDocs (\<lambda>docs.
       ret (join ''\<newline>\<newline>''
         [''Core identity: You are '' @ resolveAssistantNameFromDocs docs ''GnamiBot''
            @ '', the user'' @ [CHR 0x27] @ ''s personal assistant.'',
          join ''\<newline>\<newline>''
            (map (\<lambda>name. ''## '' @ name @ ''\<newline>''
                         @ (case map_of docs name of None \<Rightarrow> ''undefined'' | Some d \<Rightarrow> d))
               [''AGENTS.md'', ''SOUL.md'', ''MEMORY.md'', ''TOOLS.md''])]))"

section \<open>Persona bootstrap (src/gateway/server.ts)\<close>

text \<open>\<open>PersonaFields\<close> (every field optional) and \<open>Required<PersonaFields>\<close>.\<close>

record PersonaFields =
  f_assistantName :: "string option"
  f_userName :: "string option"
  f_language :: "string option"

record Persona =
  assistant_name :: string
  user_name :: string
  language :: string

subsection \<open>readPersona\<close>

text \<open>
  \<open>/you are\s+([^\n\r.]+)/i\<close>, \<open>/user\s*name\s*:\s*([^\n\r]+)/i\<close> and
  \<open>/preferred\s*language\s*:\s*([^\n\r]+)/i\<close>
\<close>

definition rx_you_are :: rx where
  "rx_you_are =
     seqs [str ''you are'', plus ws,
           Grp 1 (plus (Cls True [Ch (CHR 0x0A), Ch (CHR 0x0D), Ch CHR ''.'']))]"

definition rx_user_name :: rx where
  "rx_user_name =
     seqs [str ''user'', star ws, str ''name'', star ws, Lit CHR '':'', star ws,
           Grp 1 (plus not_line_break)]"

definition rx_preferred_language :: rx where
  "rx_preferred_language =
     seqs [str ''preferred'', star ws, str ''language'', star ws, Lit CHR '':'', star ws,
           Grp 1 (plus not_line_break)]"

definition persona_of_docs :: "string \<Rightarrow> string \<Rightarrow> string \<Rightarrow> Persona" where
  "persona_of_docs memoryDoc soulDoc defaultAssistantName =
     (let assistantFromMemory = match_trim flags_i rx_assistant_name memoryDoc;
          assistantFromSoul = match_trim flags_i rx_you_are soulDoc;
          userName = match_trim flags_i rx_user_name memoryDoc;
          lang = match_trim flags_i rx_preferred_language memoryDoc
      in \<lparr>assistant_name = or_else assistantFromMemory (or_else assistantFromSoul defaultAssistantName),
          user_name = or_else userName [],
          language = or_else lang []\<rparr>)"

definition readPersona :: "string \<Rightarrow> (Persona, 'x) io" where
  "readPersona defaultAssistantName =
     bnd (readWorkspaceDoc ''MEMORY.md'') (\<lambda>memoryDoc.
       bnd (readWorkspaceDoc ''SOUL.md'') (\<lambda>soulDoc.
         ret (persona_of_docs memoryDoc soulDoc defaultAssistantName)))"

subsection \<open>parsePersonaInput\<close>

definition name_chars :: rx where
  "name_chars = Cls False [Rng CHR ''a'' CHR ''z'', Rng CHR ''0'' CHR ''9'',
                            Ch CHR '' '', Ch CHR ''_'', Ch CHR ''-'']"

definition apostrophe :: rx where
  "apostrophe = Lit (CHR 0x27)"

text \<open>
  \<open>/(?:^|[;,\n])\s*(assistant|assistant_name|bot|bot_name|language|lang|user|user_name)\s*[:=]\s*([^;,\n]+)/gi\<close>
\<close>

definition pairRegex :: rx where
  "pairRegex =
     seqs [Alt Bol (Cls False [Ch CHR '';'', Ch CHR '','', Ch (CHR 0x0A)]),
           star ws,
           Grp 1 (alts [str ''assistant'', str ''assistant_name'', str ''bot'', str ''bot_name'',
                        str ''language'', str ''lang'', str ''user'', str ''user_name'']),
           star ws,
           Cls False [Ch CHR '':'', Ch CHR ''=''],
           star ws,
           Grp 2 (plus (Cls True [Ch CHR '';'', Ch CHR '','', Ch (CHR 0x0A)]))]"

text \<open>\<open>s.includes(p)\<close> of the source\<close>

definition str_includes :: "string \<Rightarrow> string \<Rightarrow> bool" where
  "str_includes s p = (split_first p s \<noteq> None)"

text \<open>The body of the loop over the matches of \<open>pairRegex\<close>.\<close>

definition pair_step :: "PersonaFields \<Rightarrow> (nat \<times> string) list \<Rightarrow> PersonaFields" where
  "pair_step parsed caps =
     (let key = toLowerCase (case map_of caps 1 of None \<Rightarrow> [] | Some k \<Rightarrow> k);
          val = trim (case map_of caps 2 of None \<Rightarrow> [] | Some v \<Rightarrow> v)
      in if val = [] then parsed
         else if str_includes key ''assistant'' \<or> str_includes key ''bot'' then parsed\<lparr>f_assistantName := Some val\<rparr>
         else if str_includes key ''lang'' then parsed\<lparr>f_language := Some val\<rparr>
         else if str_includes key ''user'' then parsed\<lparr>f_userName := Some val\<rparr>
         else parsed)"

text \<open>
  The phrase patterns, English and French:
  \<open>/(?:call\s+you|your\s+name\s+is)\s+([a-z0-9 _-]{2,40})/i\<close>,
  \<open>/(?:my\s+name\s+is|i\s+am)\s+([a-z0-9 _-]{2,40})/i\<close>,
  \<open>/(?:language\s*(?:is)?|i\s*speak)\s+([a-z0-9 _-]{2,40})/i\<close>,
  \<open>/(?:tu\s+t'?appelles|appelle[-\s]?toi|ton\s+nom\s+est)\s+([a-z0-9 _-]{2,40})/i\<close>,
  \<open>/(?:mon\s+nom\s+c'?est|je\s+m'?appelle)\s+([a-z0-9 _-]{2,40})/i\<close>,
  \<open>/(?:langue|je\s+parle)\s*(?:est|:)?\s*([a-z0-9 _-]{2,60})/i\<close>
\<close>

definition rx_assistantPhrase :: rx where
  "rx_assistantPhrase =
     seqs [alts [seqs [str ''call'', plus ws, str ''you''],
                 seqs [str ''your'', plus ws, str ''name'', plus ws, str ''is'']],
           plus ws, Grp 1 (Rep True 2 (Some 40) name_chars)]"

definition rx_userPhrase :: rx where
  "rx_userPhrase =
     seqs [alts [seqs [str ''my'', plus ws, str ''name'', plus ws, str ''is''],
                 seqs [str ''i'', plus ws, str ''am'']],
           plus ws, Grp 1 (Rep True 2 (Some 40) name_chars)]"

definition rx_langPhrase :: rx where
  "rx_langPhrase =
     seqs [alts [seqs [str ''language'', star ws, opt (str ''is'')],
                 seqs [str ''i'', star ws, str ''speak'']],
           plus ws, Grp 1 (Rep True 2 (Some 40) name_chars)]"

definition rx_assistantFr :: rx where
  "rx_assistantFr =
     seqs [alts [seqs [str ''tu'', plus ws, str ''t'', opt apostrophe, str ''appelles''],
                 seqs [str ''appelle'', opt (Cls False [Ch CHR ''-'', Space]), str ''toi''],
                 seqs [str ''ton'', plus ws, str ''nom'', plus ws, str ''est'']],
           plus ws, Grp 1 (Rep True 2 (Some 40) name_chars)]"

definition rx_userFr :: rx where
  "rx_userFr =
     seqs [alts [seqs [str ''mon'', plus ws, str ''nom'', plus ws, str ''c'', opt apostrophe, str ''est''],
                 seqs [str ''je'', plus ws, str ''m'', opt apostrophe, str ''appelle'']],
           plus ws, Grp 1 (Rep True 2 (Some 40) name_chars)]"

definition rx_langFr :: rx where
  "rx_langFr =
     seqs [alts [str ''langue'', seqs [str ''je'', plus ws, str ''parle'']],
           star ws, opt (alts [str ''est'', str '':'']), star ws,
           Grp 1 (Rep True 2 (Some 60) name_chars)]"

text \<open>
  The patterns of the fallback over chunks:
  \<open>/[,\n]+/\<close>,
  \<open>/(?:my\s+name|i\s+am|mon\s+nom|m'?appelle|c'?est)\b/i\<close>,
  \<open>/(?:fran[cC]ais|english|spanish|qu[eE]b[eE]cois|lang(?:uage)?|je\s+parle)/i\<close>
  (where \<open>C\<close> and \<open>E\<close> stand for the letters U+00E7 and U+00E9 of the source),
  \<open>/^(?:my\s+name\s+is|i\s+am|mon\s+nom\s+c'?est|je\s+m'?appelle)\s+/i\<close>,
  \<open>/^(?:language\s*(?:is)?|lang(?:ue)?\s*(?:est)?|je\s+parle)\s+/i\<close> and
  \<open>/[^\w _-]/g\<close>
\<close>

definition rx_chunk_separator :: rx where
  "rx_chunk_separator = plus (Cls False [Ch CHR '','', Ch (CHR 0x0A)])"

definition rx_looksLikeUser :: rx where
  "rx_looksLikeUser =
     seqs [alts [seqs [str ''my'', plus ws, str ''name''],
                 seqs [str ''i'', plus ws, str ''am''],
                 seqs [str ''mon'', plus ws, str ''nom''],
                 seqs [str ''m'', opt apostrophe, str ''appelle''],
                 seqs [str ''c'', opt apostrophe, str ''est'']],
           Wb]"

definition rx_looksLikeLang :: rx where
  "rx_looksLikeLang =
     alts [seqs [str ''fran'', Cls False [Ch CHR ''c'', Ch (CHR 0xE7)], str ''ais''],
           str ''english'',
           str ''spanish'',
           seqs [str ''qu'', Cls False [Ch CHR ''e'', Ch (CHR 0xE9)], str ''b'',
                 Cls False [Ch CHR ''e'', Ch (CHR 0xE9)], str ''cois''],
           seqs [str ''lang'', opt (str ''uage'')],
           seqs [str ''je'', plus ws, str ''parle'']]"

definition rx_user_lead_in :: rx where
  "rx_user_lead_in =
     seqs [Bol,
           alts [seqs [str ''my'', plus ws, str ''name'', plus ws, str ''is''],
                 seqs [str ''i'', plus ws, str ''am''],
                 seqs [str ''mon'', plus ws, str ''nom'', plus ws, str ''c'', opt apostrophe, str ''est''],
                 seqs [str ''je'', plus ws, str ''m'', opt apostrophe, str ''appelle'']],
           plus ws]"

definition rx_lang_lead_in :: rx where
  "rx_lang_lead_in =
     seqs [Bol,
           alts [seqs [str ''language'', star ws, opt (str ''is'')],
                 seqs [str ''lang'', opt (str ''ue''), star ws, opt (str ''est'')],
                 seqs [str ''je'', plus ws, str ''parle'']],
           plus ws]"

definition rx_not_name_char :: rx where
  "rx_not_name_char = Cls True [Word, Ch CHR '' '', Ch CHR ''_'', Ch CHR ''-'']"

definition looksLikeUser :: "string \<Rightarrow> bool" where
  "looksLikeUser v = rx_test flags_i rx_looksLikeUser v"

definition looksLikeLang :: "string \<Rightarrow> bool" where
  "looksLikeLang v = rx_test flags_i rx_looksLikeLang v"

definition clean_name :: "string \<Rightarrow> string" where
  "clean_name chunk = trim (rx_replace_all flags_none rx_not_name_char [] [] chunk)"

text \<open>A phrase fills a field that is still empty: \<open>if (!parsed.f && phrase) parsed.f = phrase\<close>.\<close>

definition fill :: "string option \<Rightarrow> string option \<Rightarrow> string option" where
  "fill field phrase = (if \<not> truthy field \<and> truthy phrase then phrase else field)"

text \<open>The four steps of the fallback over the chunks, in the order of the source.\<close>

definition chunk_user :: "string list \<Rightarrow> PersonaFields \<Rightarrow> PersonaFields" where
  "chunk_user chunks parsed =
     (if \<not> truthy (f_userName parsed) then
        (case find looksLikeUser chunks of
           None \<Rightarrow> parsed
         | Some rawUser \<Rightarrow>
             (let stripped = trim (rx_replace flags_i rx_user_lead_in [] rawUser)
              in parsed\<lparr>f_userName := (if stripped \<noteq> [] then Some stripped else f_userName parsed)\<rparr>))
      else parsed)"

definition chunk_language :: "string list \<Rightarrow> PersonaFields \<Rightarrow> PersonaFields" where
  "chunk_language chunks parsed =
     (if \<not> truthy (f_language parsed) then
        (case find looksLikeLang chunks of
           None \<Rightarrow> parsed
         | Some rawLang \<Rightarrow>
             parsed\<lparr>f_language := Some (trim (rx_replace flags_i rx_lang_lead_in [] rawLang))\<rparr>)
      else parsed)"

definition chunk_assistant :: "string list \<Rightarrow> PersonaFields \<Rightarrow> PersonaFields" where
  "chunk_assistant chunks parsed =
     (if \<not> truthy (f_assistantName parsed) then
        (case find (\<lambda>chunk. \<not> looksLikeUser chunk \<and> \<not> looksLikeLang chunk) chunks of
           None \<Rightarrow> parsed
         | Some candidate \<Rightarrow>
             if length candidate \<le> 40 then parsed\<lparr>f_assistantName := Some (clean_name candidate)\<rparr>
             else parsed)
      else parsed)"

definition chunk_fallback_user :: "string list \<Rightarrow> PersonaFields \<Rightarrow> PersonaFields" where
  "chunk_fallback_user chunks parsed =
     (if \<not> truthy (f_userName parsed) then
        (let remaining_chunks =
               filter (\<lambda>chunk.
                  let normalized = clean_name chunk in
                  if normalized = [] then False
                  else if truthy (f_assistantName parsed)
                          \<and> toLowerCase normalized = toLowerCase (the (f_assistantName parsed))
                  then False
                  else if looksLikeLang chunk then False
                  else True) chunks
         in if remaining_chunks = [] then parsed
            else parsed\<lparr>f_userName := Some (clean_name (last remaining_chunks))\<rparr>)
      else parsed)"

definition parsePersonaInput :: "string \<Rightarrow> PersonaFields" where
  "parsePersonaInput content =
     (let parsed0 = foldl pair_step
                      \<lparr>f_assistantName = None, f_userName = None, f_language = None\<rparr>
                      (exec_all flags_i pairRegex [] content);
          parsed1 = parsed0\<lparr>f_assistantName :=
                      fill (f_assistantName parsed0) (match_trim flags_i rx_assistantPhrase content)\<rparr>;
          parsed2 = parsed1\<lparr>f_userName :=
                      fill (f_userName parsed1) (match_trim flags_i rx_userPhrase content)\<rparr>;
          parsed3 = parsed2\<lparr>f_language :=
                      fill (f_language parsed2) (match_trim flags_i rx_langPhrase content)\<rparr>;
          parsed4 = parsed3\<lparr>f_assistantName :=
                      fill (f_assistantName parsed3) (match_trim flags_i rx_assistantFr content)\<rparr>;
          parsed5 = parsed4\<lparr>f_userName :=
                      fill (f_userName parsed4) (match_trim flags_i rx_userFr content)\<rparr>;
          parsed6 = parsed5\<lparr>f_language :=
                      fill (f_language parsed5) (match_trim flags_i rx_langFr content)\<rparr>
      in if \<not> truthy (f_assistantName parsed6) \<or> \<not> truthy (f_language parsed6)
            \<or> \<not> truthy (f_userName parsed6)
         then (let chunks = filter (\<lambda>part. part \<noteq> [])
                              (map trim (rx_split flags_none rx_chunk_separator content))
               in if 2 \<le> length chunks
                  then chunk_fallback_user chunks
                         (chunk_assistant chunks (chunk_language chunks (chunk_user chunks parsed6)))
                  else parsed6)
         else parsed6)"

subsection \<open>applyPersonaSetup and personaPrompt\<close>

text \<open>
  \<open>upsertLine\<close>: the expression is \<open>new RegExp(`^${key}:\\s*.*$`, "im")\<close>; the keys are
  the three literals below, letters and spaces only.
\<close>

definition upsertLine :: "string \<Rightarrow> string \<Rightarrow> string \<Rightarrow> string" where
  "upsertLine doc key val =
     (let re = seqs [Bol, str key, Lit CHR '':'', star ws, star Dot, Eol] in
      if rx_test flags_im re doc then rx_replace flags_im re (key @ '': '' @ val) doc
      else trimEnd doc @ ''\<newline>- '' @ key @ '': '' @ val @ ''\<newline>'')"

text \<open>\<open>/You are [^\n\r.]+\.?/i\<close>\<close>

definition rx_you_are_sentence :: rx where
  "rx_you_are_sentence =
     seqs [str ''You are '', plus (Cls True [Ch (CHR 0x0A), Ch (CHR 0x0D), Ch CHR ''.'']),
           opt (Lit CHR ''.'')]"

text \<open>
  \<open>saveConfig\<close> validates the configuration before it writes the file; of the
  configuration only the assistant name is modelled, which must not be empty.
\<close>

definition saveConfig :: "'x env \<Rightarrow> (unit, 'x) io" where
  "saveConfig env w =
     (if assistantName w = Some [] then (Inl (Error (config_invalid env)), w)
      else (Inr (), w\<lparr>config_file := assistantName w\<rparr>))"

definition applyPersonaSetup :: "'x env \<Rightarrow> PersonaFields \<Rightarrow> (Persona, 'x) io" where
  "applyPersonaSetup env updates =
     bnd (readWorkspaceDoc ''MEMORY.md'') (\<lambda>memoryDoc.
     bnd (readWorkspaceDoc ''SOUL.md'') (\<lambda>soulDoc.
     bnd (\<lambda>w. readPersona (case assistantName w of None \<Rightarrow> ''GnamiBot'' | Some n \<Rightarrow> n) w) (\<lambda>current.
       let next = \<lparr>assistant_name = or_else (map_option trim (f_assistantName updates)) (assistant_name current),
                   user_name = or_else (map_option trim (f_userName updates)) (user_name current),
                   language = or_else (map_option trim (f_language updates)) (language current)\<rparr>;
           memoryDoc1 = upsertLine memoryDoc ''Assistant name'' (assistant_name next);
           memoryDoc2 = (if user_name next \<noteq> [] then upsertLine memoryDoc1 ''User name'' (user_name next)
                         else memoryDoc1);
           memoryDoc3 = (if language next \<noteq> []
                         then upsertLine memoryDoc2 ''Preferred language'' (language next)
                         else memoryDoc2);
           soulDoc1 = rx_replace flags_i rx_you_are_sentence
                        (''You are '' @ assistant_name next @ ''.'') soulDoc
       in bnd (writeWorkspaceDoc ''MEMORY.md'' memoryDoc3) (\<lambda>u.
          bnd (writeWorkspaceDoc ''SOUL.md'' soulDoc1) (\<lambda>u.
          bnd (\<lambda>w. if assistantName w \<noteq> Some (assistant_name next)
                     then saveConfig env (w\<lparr>assistantName := Some (assistant_name next)\<rparr>)
                     else (Inr (), w)) (\<lambda>u.
          ret next))))))"

definition personaPrompt :: "Persona \<Rightarrow> string" where
  "personaPrompt persona =
     (let missing = (if assistant_name persona = [] then [''assistant name''] else [])
                    @ (if language persona = [] then [''language''] else [])
                    @ (if user_name persona = [] then [''your name''] else [])
      in if length missing = 0 then []
         else ''Before we start: what should I call myself, what language do you want, and what is your name?'')"

subsection \<open>Identity questions\<close>

text \<open>\<open>/\b(who are you|what are you|your name|who am i talking to)\b/i\<close>\<close>

definition rx_identity :: rx where
  "rx_identity =
     seqs [Wb,
           Grp 1 (alts [str ''who are you'', str ''what are you'', str ''your name'',
                        str ''who am i talking to'']),
           Wb]"

definition isIdentityQuestion :: "string \<Rightarrow> bool" where
  "isIdentityQuestion content = rx_test flags_i rx_identity content"

text \<open>\<open>/^#\s*SOUL\s*$/im\<close> and \<open>/\n\s*\n/\<close>\<close>

definition rx_soul_heading :: rx where
  "rx_soul_heading = seqs [Bol, Lit CHR ''#'', star ws, str ''SOUL'', star ws, Eol]"

definition rx_blank_line :: rx where
  "rx_blank_line = seqs [Lit (CHR 0x0A), star ws, Lit (CHR 0x0A)]"

definition generic_identity :: "string \<Rightarrow> string" where
  "generic_identity name =
     ''I am '' @ name @ '', your local-first personal assistant running on this computer.''"

definition soulToIdentityReply :: "string \<Rightarrow> string \<Rightarrow> string" where
  "soulToIdentityReply soulDoc name =
     (let cleaned = trim (rx_replace flags_im rx_soul_heading [] soulDoc) in
      if cleaned = [] then generic_identity name
      else (case rx_split flags_none rx_blank_line cleaned of
              [] \<Rightarrow> generic_identity name
            | first # others \<Rightarrow>
                (let firstParagraph = trim first in
                 if firstParagraph = [] then generic_identity name else firstParagraph)))"

section \<open>The turn handler (src/gateway/server.ts)\<close>

text \<open>
  An inbound message carries its channel, its sender, its text and the function
  \<open>reply\<close> of the channel, which may throw. Every call of \<open>reply\<close> is recorded in
  \<open>outbox\<close>, whether or not it throws.
\<close>

record 'x InboundMessage =
  msg_channel :: ChannelName
  msg_senderId :: string
  msg_content :: string
  msg_reply :: "string \<Rightarrow> 'x \<Rightarrow> (thrown + unit) \<times> 'x"

fun channel_name :: "ChannelName \<Rightarrow> string" where
  "channel_name Webchat = ''webchat''"
| "channel_name Telegram = ''telegram''"

definition send_reply :: "'x InboundMessage \<Rightarrow> string \<Rightarrow> (unit, 'x) io" where
  "send_reply msg body w =
     (case msg_reply msg body (ext w) of
        (r, x') \<Rightarrow> (r, w\<lparr>outbox := outbox w @ [body], ext := x'\<rparr>))"

definition pairing_required :: "ChannelName \<Rightarrow> string \<Rightarrow> string" where
  "pairing_required ch code =
     ''Pairing required. Approve with: gnamiai pairing approve '' @ channel_name ch @ '' '' @ code"

text \<open>
  A write to the long-term memory with its \<open>try\<close> and \<open>catch\<close>: the outcome becomes a
  memory event and is never thrown.
\<close>

definition remember :: "('x \<Rightarrow> (thrown + string) \<times> 'x) \<Rightarrow> string \<Rightarrow> string \<Rightarrow> string \<Rightarrow> (unit, 'x) io" where
  "remember write userScopedId saved_prefix failed_prefix w =
     (case write (ext w) of
        (Inr backend, x') \<Rightarrow>
          (Inr (), w\<lparr>ext := x',
                      store := addMemoryEvent userScopedId Saved
                                 (Some (saved_prefix @ ''backend:'' @ backend)) (store w)\<rparr>)
      | (Inl error, x') \<Rightarrow>
          (Inr (), w\<lparr>ext := x',
                      store := addMemoryEvent userScopedId Failed
                                 (Some (failed_prefix @ message_of error)) (store w)\<rparr>))"

subsection \<open>The commands \<open>/skill install\<close> and \<open>/skill restore\<close>\<close>

definition skill_install :: "'x env \<Rightarrow> 'x InboundMessage \<Rightarrow> string \<Rightarrow> (unit, 'x) io" where
  "skill_install env msg userScopedId =
     (let parts = split_lines (msg_content msg);
          skillName = trim (replace_str ''/skill install '' [] (hd parts));
          skillContent = trim (join ''\<newline>'' (tl parts))
      in if skillName = [] \<or> skillContent = [] then
           send_reply msg ''Usage: /skill install <name> followed by SKILL.md content on next lines.''
         else
           bnd (installSkill skillName skillContent) (\<lambda>skillId.
           bnd (remember (memory_addSkillMemory env userScopedId skillName skillContent) userScopedId
                  (''skill:'' @ skillName @ '' '') (''skill:'' @ skillName @ '' '')) (\<lambda>u.
           send_reply msg (''Skill installed: '' @ skillId))))"

definition skill_restore :: "'x env \<Rightarrow> 'x InboundMessage \<Rightarrow> string \<Rightarrow> (unit, 'x) io" where
  "skill_restore env msg userScopedId =
     (let skillName = trim (replace_str ''/skill restore '' [] (msg_content msg))
      in if skillName = [] then send_reply msg ''Usage: /skill restore <name>''
         else
           bnd (hasSkill skillName) (\<lambda>installed.
             if installed then send_reply msg (''Skill already installed: '' @ skillName)
             else
               bnd (run_ext (memory_findSkill env userScopedId skillName)) (\<lambda>remembered.
                 case remembered of
                   None \<Rightarrow> send_reply msg (''No remembered skill found for \"'' @ skillName @ ''\".'')
                 | Some body \<Rightarrow>
                     if body = [] then
                       send_reply msg (''No remembered skill found for \"'' @ skillName @ ''\".'')
                     else
                       bnd (installSkill skillName body) (\<lambda>skillId.
                         send_reply msg (''Skill restored from memory: '' @ skillId)))))"

subsection \<open>The persona gate\<close>

definition say :: "'x InboundMessage \<Rightarrow> nat \<Rightarrow> string \<Rightarrow> (unit, 'x) io" where
  "say msg sessionId body =
     bnd (on_db (addMessage sessionId Outbound body)) (\<lambda>messageId. send_reply msg body)"

definition setup_complete :: "Persona \<Rightarrow> string" where
  "setup_complete updated =
     ''Setup complete. I am '' @ assistant_name updated @ ''. I will speak '' @ language updated
     @ ''. Nice to meet you, '' @ user_name updated @ ''.''"

definition persona_gate :: "'x env \<Rightarrow> 'x InboundMessage \<Rightarrow> nat \<Rightarrow> Persona \<Rightarrow> PersonaFields \<Rightarrow> (unit, 'x) io" where
  "persona_gate env msg sessionId persona parsedPersona =
     (if \<not> truthy (f_assistantName parsedPersona) \<and> \<not> truthy (f_userName parsedPersona)
         \<and> \<not> truthy (f_language parsedPersona)
      then say msg sessionId (personaPrompt persona)
      else
        bnd (applyPersonaSetup env parsedPersona) (\<lambda>updated.
          if user_name updated = [] \<or> language updated = []
          then say msg sessionId (personaPrompt updated)
          else say msg sessionId (setup_complete updated)))"

subsection \<open>The identity question\<close>

definition identity_turn :: "'x env \<Rightarrow> 'x InboundMessage \<Rightarrow> string \<Rightarrow> nat \<Rightarrow> (unit, 'x) io" where
  "identity_turn env msg userScopedId sessionId =
     bnd (readWorkspaceDoc ''SOUL.md'') (\<lambda>soulDoc.
     bnd (\<lambda>w. resolveAssistantName (assistantName w) w) (\<lambda>name.
       let identityReply = soulToIdentityReply soulDoc name in
       bnd (on_db (addMessage sessionId Outbound identityReply)) (\<lambda>messageId.
       bnd (remember (memory_addConversationMemory env userScopedId (msg_content msg) identityReply)
              userScopedId ''identity-reply '' ''identity-reply '') (\<lambda>u.
       send_reply msg identityReply))))"

subsection \<open>The round trip through the model\<close>

fun action_type :: "AgentAction \<Rightarrow> string" where
  "action_type (Shell command timeoutMs) = ''shell''"
| "action_type (InstallSkill name body) = ''install_skill''"
| "action_type (Integration app action params) = ''integration''"

definition summary_entry :: "nat \<Rightarrow> ActionResult \<Rightarrow> string" where
  "summary_entry index result =
     join ''\<newline>''
       [''Action '' @ show_nat (index + 1) @ '': '' @ action_type (r_action result),
        ''Success: '' @ (if r_ok result then ''yes'' else ''no''),
        ''Output: '' @ r_output result]"

definition actionSummary :: "ActionResult list \<Rightarrow> string" where
  "actionSummary results =
     join ''\<newline>\<newline>'' (map (\<lambda>(index, result). summary_entry index result)
                                    (zip [0 ..< length results] results))"

text \<open>\<open>stripAgentActions(secondPass) || assistant || "Action completed."\<close>\<close>

definition final_reply :: "string \<Rightarrow> string \<Rightarrow> string" where
  "final_reply secondPass assistant =
     (if stripAgentActions secondPass \<noteq> [] then stripAgentActions secondPass
      else if assistant \<noteq> [] then assistant
      else ''Action completed.'')"

definition second_pass_input :: "string \<Rightarrow> string \<Rightarrow> string" where
  "second_pass_input body summary =
     join ''\<newline>''
       [''Original user request: '' @ body,
        ''Actions were executed. Summarize outcome clearly and keep concise.'',
        ''Do not emit new gnami-action blocks in this answer.'',
        [],
        summary]"

definition round_trip :: "'x env \<Rightarrow> 'x InboundMessage \<Rightarrow> string \<Rightarrow> nat \<Rightarrow> message_row list \<Rightarrow> string
    \<Rightarrow> (unit, 'x) io" where
  "round_trip env msg userScopedId sessionId history memoryContext =
     bnd buildWorkspaceContext (\<lambda>workspaceContext.
     bnd (run_ext (respond env
            \<lparr>a_input = msg_content msg @ ''\<newline>\<newline>Workspace context:\<newline>'' @ workspaceContext,
             a_history = history, a_thinking = ''medium'', a_memoryContext = memoryContext\<rparr>)) (\<lambda>firstPass.
       let actions = take 3 (parseAgentActions (json_parse env) firstPass);
           assistant = stripAgentActions firstPass
       in
       bnd (if 0 < length actions then
              bnd (\<lambda>w. case executeAgentActions env True actions w of
                          (actionResults, w') \<Rightarrow> (Inr actionResults, w')) (\<lambda>actionResults.
              bnd (run_ext (respond env
                     \<lparr>a_input = second_pass_input (msg_content msg) (actionSummary actionResults),
                      a_history = history, a_thinking = ''medium'',
                      a_memoryContext = join ''\<newline>\<newline>''
                        (filter (\<lambda>s. s \<noteq> []) [memoryContext, workspaceContext])\<rparr>)) (\<lambda>secondPass.
              ret (final_reply secondPass assistant)))
            else ret assistant) (\<lambda>answer.
       bnd (on_db (addMessage sessionId Outbound answer)) (\<lambda>messageId.
       bnd (remember (memory_addConversationMemory env userScopedId (msg_content msg) answer)
              userScopedId [] []) (\<lambda>u.
       send_reply msg answer)))))"

subsection \<open>handleInbound\<close>

definition history_hint :: "message_row list \<Rightarrow> string" where
  "history_hint history =
     join ''\<newline>''
       (map (\<lambda>entry. (if m_direction entry = Inbound then ''User'' else ''Assistant'')
                       @ '': '' @ m_content entry)
            (drop (length history - 8) history))"

text \<open>The turn from the persisted inbound message on, and the turn of a paired sender.\<close>

definition in_session :: "'x env \<Rightarrow> 'x InboundMessage \<Rightarrow> string \<Rightarrow> nat \<Rightarrow> (unit, 'x) io" where
  "in_session env msg userScopedId sessionId =
     bnd (on_db (addMessage sessionId Inbound (msg_content msg))) (\<lambda>messageId.
     bnd (\<lambda>w. (Inr (getRecentMessages sessionId 30 (store w)), w)) (\<lambda>history.
     bnd (run_ext (memory_getContext env userScopedId (msg_content msg) (history_hint history)))
       (\<lambda>memoryContext.
     bnd (\<lambda>w. readPersona (case assistantName w of None \<Rightarrow> ''GnamiBot'' | Some n \<Rightarrow> n) w) (\<lambda>persona.
       let parsedPersona = parsePersonaInput (msg_content msg) in
       if user_name persona = [] \<or> language persona = []
       then persona_gate env msg sessionId persona parsedPersona
       else if isIdentityQuestion (msg_content msg)
       then identity_turn env msg userScopedId sessionId
       else round_trip env msg userScopedId sessionId history memoryContext))))"

definition conversation :: "'x env \<Rightarrow> 'x InboundMessage \<Rightarrow> string \<Rightarrow> (unit, 'x) io" where
  "conversation env msg userScopedId =
     bnd (on_db_throwing (getOrCreateSession (msg_channel msg) (msg_senderId msg)))
       (in_session env msg userScopedId)"

definition turn :: "'x env \<Rightarrow> 'x InboundMessage \<Rightarrow> (unit, 'x) io" where
  "turn env msg =
     bnd (on_db (upsertPairing (msg_channel msg) (msg_senderId msg))) (\<lambda>pairing.
       if \<not> fst pairing
       then send_reply msg (pairing_required (msg_channel msg) (snd pairing))
       else
         (let userScopedId = channel_name (msg_channel msg) @ '':'' @ msg_senderId msg in
          if startsWith (msg_content msg) ''/skill install '' then skill_install env msg userScopedId
          else if startsWith (msg_content msg) ''/skill restore '' then skill_restore env msg userScopedId
          else conversation env msg userScopedId))"

text \<open>The \<open>try\<close> around the whole turn, and its \<open>catch\<close>.\<close>

definition on_error :: "'x InboundMessage \<Rightarrow> thrown \<Rightarrow> (unit, 'x) io" where
  "on_error msg error =
     bnd (\<lambda>w. (Inr (), w\<lparr>logged := logged w @ [error]\<rparr>)) (\<lambda>u.
       send_reply msg
         (''GnamiAI error: '' @ (case error of Error m \<Rightarrow> m | NonError s \<Rightarrow> ''unknown runtime failure'')))"

definition handleInbound :: "'x env \<Rightarrow> 'x InboundMessage \<Rightarrow> (unit, 'x) io" where
  "handleInbound env msg = try_catch (turn env msg) (on_error msg)"

section \<open>Example inputs\<close>

text \<open>
  A stand-in for \<open>JSON.parse\<close> on the three bodies used below, a model response
  with six fenced blocks, and collaborators whose child process fails for the
  command \<open>false\<close>.
\<close>

definition demo_parse :: "string \<Rightarrow> json option" where
  "demo_parse s =
     (if s = ''{\"type\":\"shell\",\"command\":\"ls\"}''
      then Some (JObj [(''type'', JStr ''shell''), (''command'', JStr ''ls'')])
      else if s = ''{\"type\":\"reboot\"}'' then Some (JObj [(''type'', JStr ''reboot'')])
      else if s = ''[1]'' then Some (JArr [JNum 1])
      else None)"

definition demo_body :: string where
  "demo_body = ''\<newline>{\"type\":\"shell\",\"command\":\"ls\"}\<newline>''"

definition demo_block :: string where
  "demo_block = ''```gnami-action'' @ demo_body @ ''```''"

definition demo_response :: string where
  "demo_response =
     ''On it. '' @ demo_block @ '' ```gnami-action {\"type\":```'' @ demo_block
     @ ''```gnami-action{\"type\":\"reboot\"}```'' @ demo_block @ '' and '' @ demo_block"

definition demo_env :: "nat env" where
  "demo_env =
     \<lparr>json_parse = demo_parse,
      json_stringify = (\<lambda>j. ''{}''),
      spawn = (\<lambda>command timeoutMs x.
        (if command = ''false'' then Exited [] [] (Some 1) else Exited ''done\<newline>'' [] (Some 0), Suc x)),
      integrations_exec = (\<lambda>app action params x. (Inl (Error ''offline''), x)),
      respond = (\<lambda>request x. (Inr ''Hello.'', Suc x)),
      memory_getContext = (\<lambda>userId latest hint x. (Inr [], x)),
      memory_addConversationMemory = (\<lambda>userId userContent assistantContent x. (Inr ''basic'', x)),
      memory_addSkillMemory = (\<lambda>userId skillName skillContent x. (Inr ''basic'', x)),
      memory_findSkill = (\<lambda>userId skillName x. (Inr None, x)),
      config_invalid = ''Invalid configuration''\<rparr>"

definition demo_store :: store where
  "demo_store =
     \<lparr>pairings = [], sessions = [], messages = [], memory_events = [],
      seq_sessions = 0, seq_messages = 0, clock = 0, entropy = (\<lambda>n. 23456), draws = 0\<rparr>"

definition demo_world :: "nat world" where
  "demo_world =
     \<lparr>store = demo_store, files = (\<lambda>name. None), fs_fault = (\<lambda>op. None),
      skills = (\<lambda>slug. None),
      assistantName = Some ''GnamiBot'', config_file = None, outbox = [], logged = [], ext = 0\<rparr>"

text \<open>A channel whose \<open>reply\<close> never throws, and a message of a sender not seen before.\<close>

definition reply_ok :: "string \<Rightarrow> nat \<Rightarrow> (thrown + unit) \<times> nat" where
  "reply_ok body x = (Inr (), x)"


text \<open>
  A world in which the sender \<open>u1\<close> of the web chat is paired and has a session from
  an earlier turn, and two messages of that sender.
\<close>

definition paired_store :: store where
  "paired_store =
     \<lparr>pairings = [\<lparr>p_channel = Webchat, p_sender_id = ''u1'', p_approved = 1,
                    p_code = ''123456'', p_created_at = 0\<rparr>],
      sessions = [\<lparr>s_id = 1, s_channel = Webchat, s_sender_id = ''u1'',
                    s_created_at = 3, s_updated_at = 3\<rparr>],
      messages = [], memory_events = [],
      seq_sessions = 1, seq_messages = 0, clock = 10, entropy = (\<lambda>n. 23456), draws = 1\<rparr>"

definition paired_world :: "nat world" where
  "paired_world = demo_world\<lparr>store := paired_store\<rparr>"

definition restore_request :: "nat InboundMessage" where
  "restore_request = \<lparr>msg_channel = Webchat, msg_senderId = ''u1'',
                       msg_content = ''/skill restore notes'', msg_reply = reply_ok\<rparr>"

definition hello :: "nat InboundMessage" where
  "hello = \<lparr>msg_channel = Webchat, msg_senderId = ''u1'', msg_content = ''hello'',
            msg_reply = reply_ok\<rparr>"

text \<open>The French introduction of the specification (with an apostrophe in \<open>c'est\<close>).\<close>

definition persona_message :: string where
  "persona_message = ''Mon nom c'' @ [CHR 0x27] @ ''est Gabriel, je parle francais''"

text \<open>
  A world in which the persona of the paired sender is complete, the same world
  with a self-description that holds its heading only, and an identity question of
  that sender.
\<close>

definition settled_files :: "string \<Rightarrow> string option" where
  "settled_files name =
     (if name = ''MEMORY.md''
      then Some ''# MEMORY\<newline>\<newline>- User name: Ana\<newline>- Preferred language: English\<newline>''
      else if name = ''SOUL.md'' then Some ''# SOUL\<newline>\<newline>You are Bo.\<newline>Be kind.\<newline>\<newline>Stay brief.\<newline>''
      else None)"

definition settled_world :: "nat world" where
  "settled_world = paired_world\<lparr>files := settled_files\<rparr>"

definition bare_files :: "string \<Rightarrow> string option" where
  "bare_files name =
     (if name = ''MEMORY.md''
      then Some ''# MEMORY\<newline>\<newline>- User name: Ana\<newline>- Preferred language: English\<newline>''
      else if name = ''SOUL.md'' then Some ''# SOUL\<newline>''
      else None)"

definition bare_world :: "nat world" where
  "bare_world = paired_world\<lparr>files := bare_files\<rparr>"

definition who :: "nat InboundMessage" where
  "who = \<lparr>msg_channel = Webchat, msg_senderId = ''u1'', msg_content = ''Who are you?'',
          msg_reply = reply_ok\<rparr>"

text \<open>
  A request of that sender to list files, and two model providers that answer the
  first call of a turn with a shell action, one with a sentence before the action
  block, and every later call with that action block and nothing else.
\<close>

definition list_files :: "nat InboundMessage" where
  "list_files = \<lparr>msg_channel = Webchat, msg_senderId = ''u1'', msg_content = ''list the files'',
                 msg_reply = reply_ok\<rparr>"

definition chatty_response :: string where
  "chatty_response = ''On it. '' @ demo_block"

definition chatty_env :: "nat env" where
  "chatty_env =
     demo_env\<lparr>respond := (\<lambda>request x. (Inr (if x = 0 then chatty_response else demo_block), Suc x))\<rparr>"

definition terse_env :: "nat env" where
  "terse_env = demo_env\<lparr>respond := (\<lambda>request x. (Inr demo_block, Suc x))\<rparr>"

text \<open>
  A block whose JSON holds a fence inside a string, with a stand-in for \<open>JSON.parse\<close>
  that parses its body; a provider that answers with the response of six blocks;
  and two texts with an action block for the removal of blocks.
\<close>

definition fenced_body :: string where
  "fenced_body = ''{\"type\":\"shell\",\"command\":\"echo ```\"}''"

definition fenced_parse :: "string \<Rightarrow> json option" where
  "fenced_parse s =
     (if s = fenced_body
      then Some (JObj [(''type'', JStr ''shell''), (''command'', JStr ''echo ```'')])
      else None)"

definition fenced_text :: string where
  "fenced_text = ''```gnami-action\<newline>'' @ fenced_body @ ''\<newline>```''"

definition busy_env :: "nat env" where
  "busy_env = demo_env\<lparr>respond := (\<lambda>request x. (Inr demo_response, Suc x))\<rparr>"

definition joined_text :: string where
  "joined_text = ''`````gnami-action````gnami-action```''"

definition quoted_text :: string where
  "quoted_text = ''Run `ls` now. '' @ demo_block @ '' Done.''"
section \<open>Extraction of actions\<close>

lemma as_string_cases:
  "as_string x = (case x of Some (JStr s) \<Rightarrow> Some s | _ \<Rightarrow> None)"
  by (cases x rule: as_string.cases) simp_all

lemma block_actions_obj:
  assumes p: "jp (trim cap) = Some (JObj kv)"
  shows "block_actions jp cap = (case known_variant kv of None \<Rightarrow> [] | Some a \<Rightarrow> [a])"
proof (cases "map_of kv ''type''")
  case None
  then show ?thesis
    by (simp add: block_actions_def safeJsonParse_def p known_variant_def)
next
  case (Some j)
  show ?thesis
  proof (cases j)
    case (JStr ty)
    consider (shell) "ty = ''shell''" | (skill) "ty = ''install_skill''"
      | (integ) "ty = ''integration''"
      | (other) "ty \<noteq> ''shell''" "ty \<noteq> ''install_skill''" "ty \<noteq> ''integration''"
      by blast
    then show ?thesis
    proof cases
      case shell
      with Some JStr show ?thesis
        by (simp add: block_actions_def safeJsonParse_def p known_variant_def as_string_cases
                 split: option.splits json.splits)
    next
      case skill
      with Some JStr show ?thesis
        by (simp add: block_actions_def safeJsonParse_def p known_variant_def as_string_cases
                 split: option.splits json.splits)
    next
      case integ
      with Some JStr show ?thesis
        by (simp add: block_actions_def safeJsonParse_def p known_variant_def as_string_cases
                 split: option.splits json.splits)
    next
      case other
      with Some JStr show ?thesis
        by (simp add: block_actions_def safeJsonParse_def p known_variant_def)
    qed
  qed (use Some in \<open>simp_all add: block_actions_def safeJsonParse_def p known_variant_def\<close>)
qed

lemma block_actions_eq:
  "block_actions jp cap = (case block_action jp cap of None \<Rightarrow> [] | Some a \<Rightarrow> [a])"
proof (cases "jp (trim cap)")
  case None
  then show ?thesis
    by (simp add: block_actions_def block_action_def safeJsonParse_def)
next
  case (Some j)
  show ?thesis
  proof (cases j)
    case (JObj kv)
    with Some block_actions_obj [of jp cap kv] show ?thesis
      by (simp add: block_action_def)
  qed (use Some in \<open>simp_all add: block_actions_def block_action_def safeJsonParse_def\<close>)
qed

lemma parse_loop_acc: "parse_loop jp s acc = acc @ parse_loop jp s []"
proof (induction s arbitrary: acc rule: length_induct)
  case (1 s)
  show ?case
  proof (cases "exec_action s")
    case None
    then show ?thesis by (simp add: parse_loop.simps [of jp s])
  next
    case (Some m)
    obtain b cap r where m: "m = (b, cap, r)" by (cases m) auto
    with Some have "length r < length s" by (auto dest: exec_action_length)
    with 1 have "parse_loop jp r (acc @ block_actions jp cap)
                   = (acc @ block_actions jp cap) @ parse_loop jp r []"
        "parse_loop jp r ([] @ block_actions jp cap) = ([] @ block_actions jp cap) @ parse_loop jp r []"
      by blast+
    with Some m show ?thesis
      by (simp add: parse_loop.simps [of jp s])
  qed
qed

lemma concat_map_option:
  "concat (map (\<lambda>x. case f x of None \<Rightarrow> [] | Some a \<Rightarrow> [a]) xs)
     = map (\<lambda>x. the (f x)) (filter (\<lambda>x. f x \<noteq> None) xs)"
  by (induction xs) (auto split: option.splits)

lemma trim_dropWhile: "trim (dropWhile is_space s) = trim s"
  by (simp add: trim_def)

lemma block_action_dropWhile: "block_action jp (dropWhile is_space body) = block_action jp body"
  by (simp add: block_action_def trim_dropWhile)
section \<open>The scan for blocks\<close>

lemma strip_prefix_iff: "strip_prefix p s = Some r \<longleftrightarrow> s = p @ r"
  by (induction p s rule: strip_prefix.induct) auto

lemma strip_prefix_None_iff: "strip_prefix p s = None \<longleftrightarrow> \<not> prefix p s"
  using strip_prefix_iff [of p s] by (cases "strip_prefix p s") (auto simp: prefix_def)

lemma sublist_butlast_self: "p \<noteq> [] \<Longrightarrow> \<not> sublist p (butlast p)"
  by (cases p) (auto dest!: sublist_length_le)

lemma prefix_of_longer:
  assumes "prefix p (a @ p @ r)" "a \<noteq> []" "p \<noteq> []"
  shows "sublist p (a @ butlast p)"
proof -
  have "a @ p @ r = (a @ butlast p) @ (last p # r)"
    using assms(3) by simp
  moreover have "length p \<le> length (a @ butlast p)"
    using assms(2,3) by (cases a) auto
  ultimately have "prefix p (a @ butlast p)"
    using assms(1) by (metis prefix_length_prefix prefixI)
  then show ?thesis by (rule prefix_imp_sublist)
qed

lemma split_first_Some_iff:
  assumes "p \<noteq> []"
  shows "split_first p s = Some (a, r) \<longleftrightarrow> s = a @ p @ r \<and> \<not> sublist p (a @ butlast p)"
proof (induction s arbitrary: a r)
  case Nil
  with assms show ?case by simp
next
  case (Cons c cs)
  show ?case
  proof (cases "strip_prefix p (c # cs)")
    case (Some r')
    then have eq: "c # cs = p @ r'" by (simp add: strip_prefix_iff)
    show ?thesis
    proof
      assume "split_first p (c # cs) = Some (a, r)"
      with Some have "a = []" "r = r'" by auto
      with eq assms show "c # cs = a @ p @ r \<and> \<not> sublist p (a @ butlast p)"
        by (simp add: sublist_butlast_self)
    next
      assume h: "c # cs = a @ p @ r \<and> \<not> sublist p (a @ butlast p)"
      have "a = []"
      proof (rule ccontr)
        assume "a \<noteq> []"
        moreover from eq h have "prefix p (a @ p @ r)" by (metis prefixI)
        ultimately have "sublist p (a @ butlast p)" using assms by (intro prefix_of_longer)
        with h show False by simp
      qed
      with h eq have "r = r'" by simp
      with Some \<open>a = []\<close> show "split_first p (c # cs) = Some (a, r)" by simp
    qed
  next
    case None
    then have np: "\<not> prefix p (c # cs)" by (simp add: strip_prefix_None_iff)
    show ?thesis
    proof
      assume "split_first p (c # cs) = Some (a, r)"
      with None obtain a' where a': "split_first p cs = Some (a', r)" "a = c # a'"
        by (auto split: option.splits)
      with Cons.IH have ih: "cs = a' @ p @ r" "\<not> sublist p (a' @ butlast p)" by auto
      have "\<not> prefix p (c # a' @ butlast p)"
      proof
        assume "prefix p (c # a' @ butlast p)"
        moreover have "prefix (c # a' @ butlast p) (c # cs)"
          using ih(1) assms by (metis append.assoc append_butlast_last_id prefixI prefix_Cons)
        ultimately show False using np by (metis prefix_order.order_trans)
      qed
      with ih a' assms show "c # cs = a @ p @ r \<and> \<not> sublist p (a @ butlast p)"
        by (cases p) (auto simp: sublist_Cons_right)
    next
      assume h: "c # cs = a @ p @ r \<and> \<not> sublist p (a @ butlast p)"
      have "a \<noteq> []"
        using h np by (auto simp: prefix_def)
      then obtain a' where a': "a = c # a'" using h by (cases a) auto
      with h have "cs = a' @ p @ r" by simp
      moreover from h a' have "\<not> sublist p (a' @ butlast p)"
        by (cases p) (auto simp: sublist_Cons_right)
      ultimately have "split_first p cs = Some (a', r)" using Cons.IH by simp
      with None a' show "split_first p (c # cs) = Some (a, r)" by simp
    qed
  qed
qed


lemma split_first_None_iff:
  assumes "p \<noteq> []"
  shows "split_first p s = None \<longleftrightarrow> \<not> sublist p s"
proof (induction s)
  case Nil
  with assms show ?case by simp
next
  case (Cons c cs)
  from assms obtain x xs where p: "p = x # xs" by (cases p) auto
  show ?case
    using Cons strip_prefix_None_iff [of p "c # cs"]
    by (cases "strip_prefix p (c # cs)") (auto simp: p sublist_Cons_right split: option.splits)
qed


lemma search_split:
  "search f s = Some (b, r) \<Longrightarrow> \<exists>t. s = b @ t \<and> f t = Some r"
proof (induction s arbitrary: b)
  case Nil
  then show ?case by (auto split: option.splits)
next
  case (Cons c cs)
  show ?case
  proof (cases "f (c # cs)")
    case None
    with Cons.prems obtain b' where b': "search f cs = Some (b', r)" "b = c # b'"
      by (auto split: option.splits)
    from Cons.IH [OF b'(1)] b'(2) show ?thesis by auto
  next
    case (Some r')
    with Cons.prems show ?thesis by auto
  qed
qed

lemma search_first:
  "search f s = Some (b, x) \<Longrightarrow> b = b1 @ b2 \<Longrightarrow> b2 \<noteq> [] \<Longrightarrow> s = b @ t \<Longrightarrow> f (b2 @ t) = None"
proof (induction s arbitrary: b b1)
  case Nil
  then show ?case by simp
next
  case (Cons c cs)
  show ?case
  proof (cases "f (c # cs)")
    case (Some r)
    with Cons.prems(1) have "b = []" by simp
    with Cons.prems(2,3) show ?thesis by simp
  next
    case None
    with Cons.prems(1) obtain b' where b': "search f cs = Some (b', x)" "b = c # b'"
      by (auto split: option.splits)
    from Cons.prems(4) b'(2) have cs: "cs = b' @ t" by simp
    show ?thesis
    proof (cases b1)
      case Nil
      with Cons.prems(2,4) None show ?thesis by simp
    next
      case (Cons d ds)
      with Cons.prems(2) b'(2) have "b' = ds @ b2" by simp
      from Cons.IH [OF b'(1) this Cons.prems(3) cs] show ?thesis .
    qed
  qed
qed

lemma search_SomeI:
  assumes "f t = Some x"
    and "\<And>b1 b2. b = b1 @ b2 \<Longrightarrow> b2 \<noteq> [] \<Longrightarrow> f (b2 @ t) = None"
  shows "search f (b @ t) = Some (b, x)"
  using assms(2)
proof (induction b)
  case Nil
  from assms(1) show ?case by (cases t) simp_all
next
  case (Cons c b')
  from Cons.prems [of "[]" "c # b'"] have none: "f (c # b' @ t) = None" by simp
  have "search f (b' @ t) = Some (b', x)"
  proof (rule Cons.IH)
    fix b1 b2 assume "b' = b1 @ b2" "b2 \<noteq> []"
    then show "f (b2 @ t) = None"
      using Cons.prems [of "c # b1" b2] by simp
  qed
  with none show ?case by simp
qed

lemma search_Some_iff:
  "search f s = Some (b, x) \<longleftrightarrow>
     (\<exists>t. s = b @ t \<and> f t = Some x \<and> (\<forall>b1 b2. b = b1 @ b2 \<and> b2 \<noteq> [] \<longrightarrow> f (b2 @ t) = None))"
proof
  assume a: "search f s = Some (b, x)"
  from search_split [OF a] obtain t where t: "s = b @ t" "f t = Some x" by blast
  have "f (b2 @ t) = None" if "b = b1 @ b2" "b2 \<noteq> []" for b1 b2
    using search_first [OF a that t(1)] .
  with t show "\<exists>t. s = b @ t \<and> f t = Some x
      \<and> (\<forall>b1 b2. b = b1 @ b2 \<and> b2 \<noteq> [] \<longrightarrow> f (b2 @ t) = None)"
    by blast
next
  assume "\<exists>t. s = b @ t \<and> f t = Some x
      \<and> (\<forall>b1 b2. b = b1 @ b2 \<and> b2 \<noteq> [] \<longrightarrow> f (b2 @ t) = None)"
  then obtain t where t: "s = b @ t" "f t = Some x"
    and first: "\<And>b1 b2. b = b1 @ b2 \<Longrightarrow> b2 \<noteq> [] \<Longrightarrow> f (b2 @ t) = None"
    by blast
  from search_SomeI [of f t x b, OF t(2) first] t(1) show "search f s = Some (b, x)"
    by simp
qed

lemma search_None_iff: "search f s = None \<longleftrightarrow> (\<forall>a t. s = a @ t \<longrightarrow> f t = None)"
proof (induction s)
  case Nil
  show ?case by (auto split: option.splits)
next
  case (Cons c cs)
  show ?case
  proof
    assume n: "search f (c # cs) = None"
    then have h: "f (c # cs) = None" "search f cs = None"
      by (auto split: option.splits)
    show "\<forall>a t. c # cs = a @ t \<longrightarrow> f t = None"
    proof (intro allI impI)
      fix a t assume "c # cs = a @ t"
      then show "f t = None"
        using h Cons by (cases a) auto
    qed
  next
    assume a: "\<forall>a t. c # cs = a @ t \<longrightarrow> f t = None"
    then have "f (c # cs) = None" by (metis append_Nil)
    moreover from a have "\<forall>a t. cs = a @ t \<longrightarrow> f t = None"
      by (metis append_Cons)
    with Cons have "search f cs = None" by simp
    ultimately show "search f (c # cs) = None" by simp
  qed
qed


lemma fence_nonempty: "fence \<noteq> []" "marker \<noteq> []"
  by (simp_all add: fence_def marker_def)


lemma strip_at_Some_iff:
  "strip_at t = Some rest \<longleftrightarrow>
     (\<exists>body. t = marker @ body @ fence @ rest \<and> \<not> sublist fence (body @ butlast fence))"
proof
  assume "strip_at t = Some rest"
  then obtain r body where "strip_prefix marker t = Some r" "split_first fence r = Some (body, rest)"
    by (auto simp: strip_at_def split: option.splits)
  then show "\<exists>body. t = marker @ body @ fence @ rest \<and> \<not> sublist fence (body @ butlast fence)"
    by (auto simp: strip_prefix_iff split_first_Some_iff [OF fence_nonempty(1)])
next
  assume "\<exists>body. t = marker @ body @ fence @ rest \<and> \<not> sublist fence (body @ butlast fence)"
  then obtain body where b: "t = marker @ body @ fence @ rest"
      "\<not> sublist fence (body @ butlast fence)"
    by blast
  then have "strip_prefix marker t = Some (body @ fence @ rest)"
    by (simp add: strip_prefix_iff)
  moreover from b have "split_first fence (body @ fence @ rest) = Some (body, rest)"
    by (simp add: split_first_Some_iff [OF fence_nonempty(1)])
  ultimately show "strip_at t = Some rest"
    by (simp add: strip_at_def)
qed


lemma strip_at_None_iff:
  "strip_at t = None \<longleftrightarrow> \<not> (\<exists>body rest. t = marker @ body @ fence @ rest)"
proof (cases "strip_prefix marker t")
  case None
  then have "\<not> prefix marker t" by (simp add: strip_prefix_None_iff)
  then have "\<not> (\<exists>body rest. t = marker @ body @ fence @ rest)"
    by (auto simp: prefix_def)
  with None show ?thesis by (simp add: strip_at_def)
next
  case (Some r)
  then have t: "t = marker @ r" by (simp add: strip_prefix_iff)
  have "(split_first fence r = None) = (\<not> sublist fence r)"
    by (rule split_first_None_iff) (rule fence_nonempty)
  also have "\<dots> = (\<not> (\<exists>body rest. r = body @ fence @ rest))"
    by (auto simp: sublist_def)
  finally show ?thesis
    using Some t by (auto simp: strip_at_def split: option.splits)
qed


lemma search_strip_at_None_iff: "search strip_at s = None \<longleftrightarrow> no_block s"
proof -
  have "(\<forall>a t. s = a @ t \<longrightarrow> strip_at t = None)
        = (\<nexists>pre body rest. s = pre @ marker @ body @ fence @ rest)"
    unfolding strip_at_None_iff by blast
  then show ?thesis
    by (simp add: search_None_iff no_block_def)
qed


lemma search_strip_at_Some_iff:
  "search strip_at s = Some (pre, rest) \<longleftrightarrow> (\<exists>body. first_block s pre body rest)"
proof
  assume "search strip_at s = Some (pre, rest)"
  then obtain t where t: "s = pre @ t" "strip_at t = Some rest"
    and first: "\<And>b1 b2. pre = b1 @ b2 \<Longrightarrow> b2 \<noteq> [] \<Longrightarrow> strip_at (b2 @ t) = None"
    unfolding search_Some_iff by blast
  from t(2) obtain body where b: "t = marker @ body @ fence @ rest"
      "\<not> sublist fence (body @ butlast fence)"
    unfolding strip_at_Some_iff by blast
  have "\<not> sublist marker (pre @ butlast marker)"
  proof
    assume "sublist marker (pre @ butlast marker)"
    then obtain u v where uv: "pre @ butlast marker = u @ marker @ v"
      by (auto simp: sublist_def)
    then have "length (pre @ butlast marker) = length (u @ marker @ v)"
      by simp
    then have len: "length u < length pre"
      by (simp add: marker_def)
    from uv obtain w where w: "pre = u @ w" "w @ butlast marker = marker @ v"
      using len by (auto simp: append_eq_append_conv2)
    from w(1) len have "w \<noteq> []" by auto
    with first w(1) have none: "strip_at (w @ t) = None" by blast
    have "w @ t = (w @ butlast marker) @ [last marker] @ body @ fence @ rest"
      using b(1) fence_nonempty(2) by simp
    also have "\<dots> = marker @ (v @ [last marker] @ body) @ fence @ rest"
      using w(2) by simp
    finally have "\<exists>body' rest'. w @ t = marker @ body' @ fence @ rest'"
      by blast
    with none show False
      by (simp add: strip_at_None_iff)
  qed
  with t b show "\<exists>body. first_block s pre body rest"
    by (auto simp: first_block_def)
next
  assume "\<exists>body. first_block s pre body rest"
  then obtain body where fb: "s = pre @ marker @ body @ fence @ rest"
      "\<not> sublist marker (pre @ butlast marker)" "\<not> sublist fence (body @ butlast fence)"
    by (auto simp: first_block_def)
  let ?t = "marker @ body @ fence @ rest"
  have "strip_at ?t = Some rest"
    using fb(3) by (auto simp: strip_at_Some_iff)
  moreover have "strip_at (b2 @ ?t) = None" if "pre = b1 @ b2" "b2 \<noteq> []" for b1 b2
  proof (rule ccontr)
    assume "strip_at (b2 @ ?t) \<noteq> None"
    then obtain body' rest' where "b2 @ ?t = marker @ body' @ fence @ rest'"
      by (auto simp: strip_at_None_iff)
    then have "prefix marker (b2 @ marker @ (body @ fence @ rest))"
      by (simp add: prefix_def)
    then have "sublist marker (b2 @ butlast marker)"
      using that(2) fence_nonempty(2) by (rule prefix_of_longer)
    then have "sublist marker (b1 @ b2 @ butlast marker)"
      by (auto simp: sublist_def) (metis append.assoc)
    with fb(2) that(1) show False by simp
  qed
  ultimately show "search strip_at s = Some (pre, rest)"
    unfolding search_Some_iff using fb(1) by blast
qed



lemma first_block_unique:
  assumes "first_block s pre body rest" "first_block s pre' body' rest'"
  shows "pre' = pre \<and> body' = body \<and> rest' = rest"
proof -
  from assms have "search strip_at s = Some (pre, rest)" "search strip_at s = Some (pre', rest')"
    by (auto simp: search_strip_at_Some_iff)
  then have "pre' = pre" "rest' = rest" by simp_all
  moreover from assms have "s = pre @ marker @ body @ fence @ rest"
      "s = pre' @ marker @ body' @ fence @ rest'"
    by (simp_all add: first_block_def)
  ultimately show ?thesis by simp
qed

lemma first_block_not_no_block: "first_block s pre body rest \<Longrightarrow> \<not> no_block s"
  by (auto simp: first_block_def no_block_def)

lemma first_block_shorter: "first_block s pre body rest \<Longrightarrow> length rest < length s"
  by (simp add: first_block_def marker_def)

lemma block_cases:
  obtains (none) "no_block s" | (block) pre body rest where "first_block s pre body rest"
proof (cases "search strip_at s")
  case None
  then have "no_block s" by (simp add: search_strip_at_None_iff)
  then show ?thesis by (rule none)
next
  case (Some r)
  then obtain pre rest where "search strip_at s = Some (pre, rest)" by (cases r) auto
  then obtain body where "first_block s pre body rest"
    by (auto simp: search_strip_at_Some_iff)
  then show ?thesis by (rule block)
qed

lemma scan_exists: "\<exists>bodies pieces. scan s bodies pieces"
proof (induction s rule: length_induct)
  case (1 s)
  show ?case
  proof (cases s rule: block_cases)
    case none
    then show ?thesis by (blast intro: scan_end)
  next
    case (block pre body rest)
    then have "length rest < length s" by (rule first_block_shorter)
    with 1 obtain bodies pieces where "scan rest bodies pieces" by blast
    with block show ?thesis by (blast intro: scan_block)
  qed
qed

lemma scan_unique:
  "scan s bodies pieces \<Longrightarrow> scan s bodies' pieces' \<Longrightarrow> bodies' = bodies \<and> pieces' = pieces"
proof (induction arbitrary: bodies' pieces' rule: scan.induct)
  case (scan_end t)
  from scan_end.prems scan_end.hyps show ?case
    by (cases rule: scan.cases) (auto dest: first_block_not_no_block)
next
  case (scan_block t pre body rest bodies pieces)
  from scan_block.prems show ?case
  proof (cases rule: scan.cases)
    case scan_end
    with scan_block.hyps(1) show ?thesis by (auto dest: first_block_not_no_block)
  next
    case (scan_block pre' body' rest' bs ps)
    with first_block_unique [OF scan_block.hyps(1) scan_block(3)]
    have "pre' = pre" "body' = body" "rest' = rest" by simp_all
    with scan_block scan_block.IH [of bs ps] show ?thesis by simp
  qed
qed


lemma split_first_fence_dropWhile_iff:
  "split_first fence (dropWhile is_space r) = Some (cap, rest) \<longleftrightarrow>
     (\<exists>body. split_first fence r = Some (body, rest) \<and> cap = dropWhile is_space body)"
proof (induction r)
  case Nil
  show ?case by (simp add: fence_def)
next
  case (Cons c cs)
  show ?case
  proof (cases "is_space c")
    case True
    then have "strip_prefix fence (c # cs) = None"
      by (auto simp: fence_def is_space_def)
    with True Cons show ?thesis
      by (auto split: option.splits)
  next
    case False
    have "dropWhile is_space body = body" if "split_first fence (c # cs) = Some (body, rest)" for body
      using that False by (auto split: option.splits)
    with False show ?thesis by auto
  qed
qed

lemma action_at_Some_iff:
  "action_at t = Some (cap, rest) \<longleftrightarrow>
     (\<exists>body. t = marker @ body @ fence @ rest \<and> \<not> sublist fence (body @ butlast fence)
             \<and> cap = dropWhile is_space body)"
proof
  assume "action_at t = Some (cap, rest)"
  then obtain r where r: "strip_prefix marker t = Some r"
      "split_first fence (dropWhile is_space r) = Some (cap, rest)"
    by (auto simp: action_at_def split: option.splits)
  from r(2) obtain body where "split_first fence r = Some (body, rest)" "cap = dropWhile is_space body"
    unfolding split_first_fence_dropWhile_iff by blast
  with r(1) show "\<exists>body. t = marker @ body @ fence @ rest \<and> \<not> sublist fence (body @ butlast fence)
             \<and> cap = dropWhile is_space body"
    by (auto simp: strip_prefix_iff split_first_Some_iff [OF fence_nonempty(1)])
next
  assume "\<exists>body. t = marker @ body @ fence @ rest \<and> \<not> sublist fence (body @ butlast fence)
             \<and> cap = dropWhile is_space body"
  then obtain body where b: "t = marker @ body @ fence @ rest"
      "\<not> sublist fence (body @ butlast fence)" "cap = dropWhile is_space body"
    by blast
  then have "strip_prefix marker t = Some (body @ fence @ rest)"
    by (simp add: strip_prefix_iff)
  moreover from b have "split_first fence (body @ fence @ rest) = Some (body, rest)"
    by (simp add: split_first_Some_iff [OF fence_nonempty(1)])
  then have "split_first fence (dropWhile is_space (body @ fence @ rest)) = Some (cap, rest)"
    unfolding split_first_fence_dropWhile_iff using b(3) by blast
  ultimately show "action_at t = Some (cap, rest)"
    by (simp add: action_at_def)
qed

lemma action_at_None_iff: "action_at t = None \<longleftrightarrow> strip_at t = None"
proof -
  have "(action_at t \<noteq> None) = (strip_at t \<noteq> None)"
  proof
    assume "action_at t \<noteq> None"
    then obtain cap rest where "action_at t = Some (cap, rest)" by auto
    then show "strip_at t \<noteq> None"
      unfolding action_at_Some_iff by (auto simp: strip_at_None_iff)
  next
    assume "strip_at t \<noteq> None"
    then obtain rest where "strip_at t = Some rest" by auto
    then obtain body where "t = marker @ body @ fence @ rest"
        "\<not> sublist fence (body @ butlast fence)"
      unfolding strip_at_Some_iff by blast
    then have "action_at t = Some (dropWhile is_space body, rest)"
      unfolding action_at_Some_iff by blast
    then show "action_at t \<noteq> None" by simp
  qed
  then show ?thesis by blast
qed

lemma exec_action_None_iff: "exec_action s = None \<longleftrightarrow> no_block s"
  by (simp add: exec_action_def search_None_iff action_at_None_iff
        search_strip_at_None_iff [symmetric])

lemma exec_action_first_block:
  assumes "first_block s pre body rest"
  shows "exec_action s = Some (pre, dropWhile is_space body, rest)"
proof -
  let ?t = "marker @ body @ fence @ rest"
  from assms have s: "s = pre @ ?t" and f: "\<not> sublist fence (body @ butlast fence)"
    by (simp_all add: first_block_def)
  from assms have "search strip_at s = Some (pre, rest)"
    by (auto simp: search_strip_at_Some_iff)
  then have first: "strip_at (b2 @ ?t) = None" if "pre = b1 @ b2" "b2 \<noteq> []" for b1 b2
    using search_first [of strip_at s pre rest b1 b2 ?t] that s by simp
  have "action_at ?t = Some (dropWhile is_space body, rest)"
    unfolding action_at_Some_iff using f by blast
  moreover have "action_at (b2 @ ?t) = None" if "pre = b1 @ b2" "b2 \<noteq> []" for b1 b2
    using first [OF that] by (simp add: action_at_None_iff)
  ultimately have "search action_at (pre @ ?t) = Some (pre, dropWhile is_space body, rest)"
    by (rule search_SomeI)
  with s show ?thesis by (simp add: exec_action_def)
qed
section \<open>What the scan gives to the extraction and to the removal\<close>

lemma parseAgentActions_no_block:
  assumes "no_block s"
  shows "parseAgentActions jp s = []"
proof -
  from assms have "exec_action s = None" by (simp add: exec_action_None_iff)
  then show ?thesis by (simp add: parseAgentActions_def parse_loop.simps [of jp s])
qed

lemma parseAgentActions_first_block:
  assumes "first_block s pre body rest"
  shows "parseAgentActions jp s
         = (case block_action jp body of None \<Rightarrow> [] | Some a \<Rightarrow> [a]) @ parseAgentActions jp rest"
proof -
  have "parseAgentActions jp s = parse_loop jp rest ([] @ block_actions jp (dropWhile is_space body))"
    by (simp add: parseAgentActions_def parse_loop.simps [of jp s]
          exec_action_first_block [OF assms])
  also have "\<dots> = block_actions jp (dropWhile is_space body) @ parseAgentActions jp rest"
    using parse_loop_acc [of jp rest "block_actions jp (dropWhile is_space body)"]
    by (simp add: parseAgentActions_def)
  finally show ?thesis
    by (simp add: block_actions_eq block_action_dropWhile)
qed

lemma scan_parse:
  "scan s bodies pieces \<Longrightarrow>
   parseAgentActions jp s = map (\<lambda>b. the (block_action jp b)) (filter (well_formed jp) bodies)"
proof (induction rule: scan.induct)
  case (scan_end t)
  then show ?case by (simp add: parseAgentActions_no_block)
next
  case (scan_block t pre body rest bodies pieces)
  then show ?case
    by (auto simp: parseAgentActions_first_block well_formed_def)
qed

lemma strip_all_no_block:
  assumes "no_block s"
  shows "strip_all s = s"
proof -
  from assms have "search strip_at s = None" by (simp add: search_strip_at_None_iff)
  then show ?thesis by (simp add: strip_all.simps [of s])
qed

lemma strip_all_first_block:
  assumes "first_block s pre body rest"
  shows "strip_all s = pre @ strip_all rest"
proof -
  from assms have "search strip_at s = Some (pre, rest)"
    by (auto simp: search_strip_at_Some_iff)
  then show ?thesis by (simp add: strip_all.simps [of s])
qed

lemma scan_strip: "scan s bodies pieces \<Longrightarrow> strip_all s = concat pieces"
  by (induction rule: scan.induct) (simp_all add: strip_all_no_block strip_all_first_block)

lemma scan_pieces: "scan s bodies pieces \<Longrightarrow> pieces \<noteq> [] \<and> length pieces = Suc (length bodies)"
  by (induction rule: scan.induct) simp_all

lemma sublist_trim: "sublist (trim s) s"
proof -
  let ?t = "dropWhile is_space s"
  have "rev (rev ?t) = rev (takeWhile is_space (rev ?t) @ dropWhile is_space (rev ?t))"
    by (simp only: takeWhile_dropWhile_id)
  then have "?t = rev (dropWhile is_space (rev ?t)) @ rev (takeWhile is_space (rev ?t))"
    by (simp only: rev_rev_ident rev_append)
  then have "?t = trim s @ rev (takeWhile is_space (rev ?t))"
    by (simp only: trim_def)
  moreover have "s = takeWhile is_space s @ ?t" by simp
  ultimately have "s = takeWhile is_space s @ trim s @ rev (takeWhile is_space (rev ?t))"
    by simp
  then show ?thesis
    unfolding sublist_def by blast
qed


lemma sublist_extend_right: "sublist p a \<Longrightarrow> sublist p (a @ b)"
proof -
  assume "sublist p a"
  then obtain u v where "a = u @ p @ v" by (auto simp: sublist_def)
  then have "a @ b = u @ p @ (v @ b)" by simp
  then show ?thesis unfolding sublist_def by blast
qed

lemma assembled_iff:
  "assembled ps \<longleftrightarrow>
     (\<exists>k i. 0 < k \<and> k < length ps \<and> 0 < i \<and> i < length marker
            \<and> suffix (take i marker) (concat (take k ps))
            \<and> prefix (drop i marker) (concat (drop k ps)))"
  unfolding assembled_def Bex_def by (simp add: Suc_le_eq)

lemma assembledI:
  assumes "0 < k" "k < length ps" "u \<noteq> []" "v \<noteq> []" "u @ v = marker"
    and "suffix u (concat (take k ps))" "prefix v (concat (drop k ps))"
  shows "assembled ps"
proof -
  let ?i = "length u"
  from assms(5) have "length marker = length u + length v"
    by (metis length_append)
  with assms(3,4) have i: "0 < ?i" "?i < length marker"
    by simp_all
  have "take ?i (u @ v) = u" "drop ?i (u @ v) = v" by simp_all
  with assms(5) have "take ?i marker = u" "drop ?i marker = v" by simp_all
  with assms(6,7) have "suffix (take ?i marker) (concat (take k ps))"
      "prefix (drop ?i marker) (concat (drop k ps))"
    by simp_all
  with assms(1,2) i show ?thesis
    unfolding assembled_iff by blast
qed

lemma assembled_Cons: "assembled ps \<Longrightarrow> assembled (p # ps)"
proof -
  assume "assembled ps"
  then obtain k i where k: "0 < k" "k < length ps" and i: "0 < i" "i < length marker"
    and s: "suffix (take i marker) (concat (take k ps))"
    and p: "prefix (drop i marker) (concat (drop k ps))"
    unfolding assembled_iff by blast
  from s have "suffix (take i marker) (concat (take (Suc k) (p # ps)))"
    by (simp add: suffix_append)
  moreover from p have "prefix (drop i marker) (concat (drop (Suc k) (p # ps)))"
    by simp
  moreover from k have "0 < Suc k" "Suc k < length (p # ps)" by simp_all
  ultimately show ?thesis
    unfolding assembled_iff using i by blast
qed

lemma scan_assembled:
  "scan s bodies pieces \<Longrightarrow> concat pieces = a @ marker @ c \<Longrightarrow> sublist fence c
   \<Longrightarrow> assembled pieces"
proof (induction arbitrary: a rule: scan.induct)
  case (scan_end t)
  from scan_end.prems obtain c1 c2 where "c = c1 @ fence @ c2"
    by (auto simp: sublist_def)
  with scan_end.prems(1) have "t = a @ marker @ c1 @ fence @ c2" by simp
  with scan_end.hyps show ?case
    unfolding no_block_def by blast
next
  case (scan_block t pre body rest bodies pieces)
  from scan_block.hyps(2) have ne: "pieces \<noteq> []" by (simp add: scan_pieces)
  from scan_block.prems(1) have eq: "pre @ concat pieces = a @ marker @ c" by simp
  then consider (later) w where "a = pre @ w" "concat pieces = w @ marker @ c"
    | (inside) w where "pre = a @ w" "w @ concat pieces = marker @ c"
    by (auto simp: append_eq_append_conv2)
  then show ?case
  proof cases
    case later
    from scan_block.IH [OF later(2) scan_block.prems(2)] show ?thesis
      by (rule assembled_Cons)
  next
    case inside
    from inside(2) consider (whole) v where "w = marker @ v"
      | (part) v where "w @ v = marker" "concat pieces = v @ c"
      by (auto simp: append_eq_append_conv2)
    then show ?thesis
    proof cases
      case whole
      with inside(1) have "sublist marker pre"
        unfolding sublist_def by blast
      then have "sublist marker (pre @ butlast marker)"
        by (rule sublist_extend_right)
      with scan_block.hyps(1) show ?thesis
        by (simp add: first_block_def)
    next
      case part
      show ?thesis
      proof (cases "w = []")
        case True
        with inside(1) part have "concat pieces = [] @ marker @ c" by simp
        from scan_block.IH [OF this scan_block.prems(2)] show ?thesis
          by (rule assembled_Cons)
      next
        case False
        show ?thesis
        proof (cases "v = []")
          case True
          with part(1) inside(1) have "sublist marker pre"
            unfolding sublist_def by (metis append_Nil2)
          then have "sublist marker (pre @ butlast marker)"
            by (rule sublist_extend_right)
          with scan_block.hyps(1) show ?thesis
            by (simp add: first_block_def)
        next
          case v: False
          show ?thesis
          proof (rule assembledI [of 1 _ w v])
            show "suffix w (concat (take 1 (pre # pieces)))"
              using inside(1) by (simp add: suffix_def)
            show "prefix v (concat (drop 1 (pre # pieces)))"
              using part(2) by (simp add: prefix_def)
            show "1 < length (pre # pieces)" using ne by (cases pieces) auto
          qed (use False v part in auto)
        qed
      qed
    qed
  qed
qed

lemma scan_rescan:
  assumes "scan s bodies pieces" "\<not> assembled pieces"
  shows "no_block (stripAgentActions s)"
proof (rule ccontr)
  assume "\<not> no_block (stripAgentActions s)"
  then obtain a b c where t: "trim (strip_all s) = a @ marker @ b @ fence @ c"
    by (auto simp: no_block_def stripAgentActions_def)
  from sublist_trim [of "strip_all s"] obtain l r where "strip_all s = l @ trim (strip_all s) @ r"
    by (auto simp: sublist_def)
  with t scan_strip [OF assms(1)] have "concat pieces = (l @ a) @ marker @ (b @ fence @ c @ r)"
    by simp
  moreover have "sublist fence (b @ fence @ c @ r)"
    unfolding sublist_def by blast
  ultimately have "assembled pieces"
    using assms(1) by (intro scan_assembled)
  with assms(2) show False by simp
qed


lemma assembled_last:
  assumes "assembled ps"
  shows "\<exists>k. 0 < k \<and> k < length ps \<and> concat (take k ps) \<noteq> []
             \<and> last (concat (take k ps)) \<in> set marker"
proof -
  from assms obtain k i where k: "0 < k" "k < length ps" and i: "0 < i" "i < length marker"
    and s: "suffix (take i marker) (concat (take k ps))"
    unfolding assembled_iff by blast
  from i have ne: "take i marker \<noteq> []" by auto
  from s obtain u where u: "concat (take k ps) = u @ take i marker"
    by (auto simp: suffix_def)
  with ne have "concat (take k ps) \<noteq> []" by simp
  moreover from u ne have "last (concat (take k ps)) = last (take i marker)" by simp
  moreover have "last (take i marker) \<in> set (take i marker)" using ne by (rule last_in_set)
  then have "last (take i marker) \<in> set marker" by (rule in_set_takeD)
  ultimately show ?thesis using k by auto
qed

lemma not_assembled_pair:
  assumes "p \<noteq> []" "last p \<notin> set marker"
  shows "\<not> assembled [p, q]"
proof
  assume "assembled [p, q]"
  from assembled_last [OF this] obtain k where "0 < k" "k < length [p, q]"
      "last (concat (take k [p, q])) \<in> set marker"
    by blast
  moreover from this have "k = 1" by simp
  ultimately show False using assms by simp
qed

section \<open>Execution of actions\<close>

text \<open>The result recorded for an action, from what its execution returned or threw.\<close>

definition result_for :: "AgentAction \<Rightarrow> thrown + string \<Rightarrow> ActionResult" where
  "result_for a outcome =
     (case outcome of
        Inl error \<Rightarrow> \<lparr>r_action = a, r_ok = False, r_output = message_of error\<rparr>
      | Inr out \<Rightarrow> \<lparr>r_action = a, r_ok = True, r_output = out\<rparr>)"

lemma execute_loop_acc:
  "execute_loop env integ actions acc w =
     (acc @ fst (execute_loop env integ actions [] w), snd (execute_loop env integ actions [] w))"
proof (induction actions arbitrary: acc w)
  case Nil
  show ?case by simp
next
  case (Cons a rest)
  obtain res w' where run: "run_action env integ a w = (res, w')"
    by (cases "run_action env integ a w") auto
  show ?case
  proof (cases res)
    case (Inl e)
    with run show ?thesis
      using Cons [of "acc @ [\<lparr>r_action = a, r_ok = False, r_output = message_of e\<rparr>]" w']
        Cons [of "[\<lparr>r_action = a, r_ok = False, r_output = message_of e\<rparr>]" w']
      by simp
  next
    case (Inr out)
    with run show ?thesis
      using Cons [of "acc @ [\<lparr>r_action = a, r_ok = True, r_output = out\<rparr>]" w']
        Cons [of "[\<lparr>r_action = a, r_ok = True, r_output = out\<rparr>]" w']
      by simp
  qed
qed

lemma execute_cons:
  "executeAgentActions env integ (a # rest) w =
     (result_for a (fst (run_action env integ a w))
        # fst (executeAgentActions env integ rest (snd (run_action env integ a w))),
      snd (executeAgentActions env integ rest (snd (run_action env integ a w))))"
proof -
  obtain res w' where run: "run_action env integ a w = (res, w')"
    by (cases "run_action env integ a w") auto
  show ?thesis
    unfolding executeAgentActions_def
    using run execute_loop_acc [of env integ rest "[result_for a res]" w']
    by (cases res) (simp_all add: result_for_def)
qed

lemma execute_nil: "executeAgentActions env integ [] w = ([], w)"
  by (simp add: executeAgentActions_def)

lemma execute_actions:
  "map r_action (fst (executeAgentActions env integ actions w)) = actions"
  by (induction actions arbitrary: w)
     (simp_all add: execute_nil execute_cons result_for_def split: sum.splits)

lemma execute_length:
  "length (fst (executeAgentActions env integ actions w)) = length actions"
  using execute_actions [of env integ actions w] by (metis length_map)

lemma execute_nth:
  "i < length actions \<Longrightarrow>
   fst (executeAgentActions env integ actions w) ! i =
     result_for (actions ! i)
       (fst (run_action env integ (actions ! i)
              (snd (executeAgentActions env integ (take i actions) w))))"
proof (induction actions arbitrary: i w)
  case Nil
  then show ?case by simp
next
  case (Cons a rest)
  show ?case
  proof (cases i)
    case 0
    then show ?thesis by (simp add: execute_cons execute_nil)
  next
    case (Suc j)
    with Cons.prems have "j < length rest" by simp
    from Cons.IH [OF this, of "snd (run_action env integ a w)"] Suc show ?thesis
      by (simp add: execute_cons)
  qed
qed

section \<open>The pairing gate\<close>




lemma upsertPairing_frame:
  "sessions (snd (upsertPairing ch sid db)) = sessions db
   \<and> messages (snd (upsertPairing ch sid db)) = messages db
   \<and> memory_events (snd (upsertPairing ch sid db)) = memory_events db
   \<and> seq_sessions (snd (upsertPairing ch sid db)) = seq_sessions db
   \<and> seq_messages (snd (upsertPairing ch sid db)) = seq_messages db"
  by (simp add: upsertPairing_def generatePairingCode_def now_def split: option.splits)

section \<open>What a turn does to the sessions\<close>

text \<open>\<open>keeps_sessions f\<close>: running \<open>f\<close> leaves the table of sessions as it is.\<close>

definition keeps_sessions :: "('a, 'x) io \<Rightarrow> bool" where
  "keeps_sessions f = (\<forall>w. sessions (store (snd (f w))) = sessions (store w))"

named_theorems keeps

lemma keeps_ret [keeps]: "keeps_sessions (ret v)"
  by (simp add: keeps_sessions_def ret_def)

lemma keeps_throw [keeps]: "keeps_sessions (throw e)"
  by (simp add: keeps_sessions_def throw_def)

lemma keeps_bnd [keeps]:
  "keeps_sessions f \<Longrightarrow> (\<And>v. keeps_sessions (g v)) \<Longrightarrow> keeps_sessions (bnd f g)"
  unfolding keeps_sessions_def bnd_def
proof
  fix w
  assume f: "\<forall>w. sessions (store (snd (f w))) = sessions (store w)"
    and g: "\<And>v. \<forall>w. sessions (store (snd (g v w))) = sessions (store w)"
  obtain r w' where fw: "f w = (r, w')" by (cases "f w") auto
  from f fw have "sessions (store w') = sessions (store w)" by (metis snd_conv)
  with g fw show "sessions (store (snd (case f w of (Inl e, w') \<Rightarrow> (Inl e, w') | (Inr v, w') \<Rightarrow> g v w')))
      = sessions (store w)"
    by (cases r) simp_all
qed

lemma keeps_try_catch [keeps]:
  "keeps_sessions f \<Longrightarrow> (\<And>e. keeps_sessions (h e)) \<Longrightarrow> keeps_sessions (try_catch f h)"
  unfolding keeps_sessions_def try_catch_def
proof
  fix w
  assume f: "\<forall>w. sessions (store (snd (f w))) = sessions (store w)"
    and h: "\<And>e. \<forall>w. sessions (store (snd (h e w))) = sessions (store w)"
  obtain r w' where fw: "f w = (r, w')" by (cases "f w") auto
  from f fw have "sessions (store w') = sessions (store w)" by (metis snd_conv)
  with h fw show "sessions (store (snd (case f w of (Inl e, w') \<Rightarrow> h e w' | (Inr v, w') \<Rightarrow> (Inr v, w'))))
      = sessions (store w)"
    by (cases r) simp_all
qed

lemma keeps_if [keeps]:
  "keeps_sessions f \<Longrightarrow> keeps_sessions g \<Longrightarrow> keeps_sessions (if b then f else g)"
  by simp

lemma keeps_reading:
  "(\<And>a. keeps_sessions (f a)) \<Longrightarrow> keeps_sessions (\<lambda>w. f (h w) w)"
  by (simp add: keeps_sessions_def)

lemma keeps_run_ext [keeps]: "keeps_sessions (run_ext f)"
  by (simp add: keeps_sessions_def run_ext_def split: prod.splits)

lemma keeps_send_reply [keeps]: "keeps_sessions (send_reply msg body)"
  by (simp add: keeps_sessions_def send_reply_def split: prod.splits)

lemma keeps_addMessage [keeps]: "keeps_sessions (on_db (addMessage sessionId dir body))"
  by (simp add: keeps_sessions_def on_db_def addMessage_def now_def)

lemma keeps_remember [keeps]: "keeps_sessions (remember write uid a b)"
  by (simp add: keeps_sessions_def remember_def addMemoryEvent_def now_def split: prod.splits sum.splits)

lemma keeps_mkdir [keeps]: "keeps_sessions mkdir_workspace"
  by (simp add: keeps_sessions_def mkdir_workspace_def split: option.splits)

lemma keeps_readFile [keeps]: "keeps_sessions (readFile name)"
  by (simp add: keeps_sessions_def readFile_def split: option.splits)

lemma keeps_writeFile [keeps]: "keeps_sessions (writeFile name body)"
  by (simp add: keeps_sessions_def writeFile_def split: option.splits)

lemma keeps_ensure_doc [keeps]: "keeps_sessions (ensure_doc entry)"
proof (cases entry)
  case (Pair name template)
  have "keeps_sessions (case map_of LEGACY_DOC_TEMPLATES name of
          None \<Rightarrow> ret ()
        | Some legacy \<Rightarrow>
            if legacy \<noteq> [] \<and> trim existing = trim legacy then writeFile name template
            else ret ())" for existing
    by (cases "map_of LEGACY_DOC_TEMPLATES name") (auto intro!: keeps)
  with Pair show ?thesis
    unfolding ensure_doc_def by (auto intro!: keeps)
qed

lemma keeps_ensure_docs [keeps]: "keeps_sessions (ensure_docs entries)"
  by (induction entries) (auto intro!: keeps)

lemma keeps_ensure [keeps]: "keeps_sessions ensureWorkspaceDocs"
  unfolding ensureWorkspaceDocs_def by (intro keeps)

lemma keeps_readWorkspaceDoc [keeps]: "keeps_sessions (readWorkspaceDoc name)"
proof -
  have "keeps_sessions (case normalizeDocName name of
          Inl error \<Rightarrow> throw error | Inr normalized \<Rightarrow> readFile normalized)"
    by (cases "normalizeDocName name") (auto intro!: keeps)
  then show ?thesis
    unfolding readWorkspaceDoc_def by (intro keeps)
qed

lemma keeps_writeWorkspaceDoc [keeps]: "keeps_sessions (writeWorkspaceDoc name body)"
proof -
  have "keeps_sessions (case normalizeDocName name of
          Inl error \<Rightarrow> throw error | Inr normalized \<Rightarrow> writeFile normalized body)"
    by (cases "normalizeDocName name") (auto intro!: keeps)
  then show ?thesis
    unfolding writeWorkspaceDoc_def by (intro keeps)
qed

lemma keeps_read_all [keeps]: "keeps_sessions (read_all names)"
  by (induction names) (auto intro!: keeps)

lemma keeps_readWorkspaceDocs [keeps]: "keeps_sessions readWorkspaceDocs"
  unfolding readWorkspaceDocs_def by (intro keeps)

lemma keeps_resolveAssistantName [keeps]: "keeps_sessions (resolveAssistantName fallback)"
  unfolding resolveAssistantName_def by (intro keeps)

lemma keeps_buildWorkspaceContext [keeps]: "keeps_sessions buildWorkspaceContext"
  unfolding buildWorkspaceContext_def by (intro keeps)

lemma keeps_readPersona [keeps]: "keeps_sessions (readPersona d)"
  unfolding readPersona_def by (intro keeps)

lemma keeps_saveConfig: "sessions (store (snd (saveConfig env w))) = sessions (store w)"
  by (simp add: saveConfig_def)

lemma keeps_readPersona_default [keeps]:
  "keeps_sessions (\<lambda>w. readPersona (case assistantName w of None \<Rightarrow> ''GnamiBot'' | Some n \<Rightarrow> n) w)"
  by (rule keeps_reading) (rule keeps_readPersona)

lemma keeps_save_if_changed [keeps]:
  "keeps_sessions (\<lambda>w. if assistantName w \<noteq> Some n
      then saveConfig env (w\<lparr>assistantName := Some n\<rparr>) else (Inr (), w))"
  by (simp add: keeps_sessions_def keeps_saveConfig)

lemma keeps_applyPersonaSetup [keeps]: "keeps_sessions (applyPersonaSetup env updates)"
  unfolding applyPersonaSetup_def Let_def
  by (intro keeps)

lemma keeps_installSkill [keeps]: "keeps_sessions (installSkill name body)"
  by (simp add: keeps_sessions_def installSkill_def throw_def Let_def)

lemma keeps_hasSkill [keeps]: "keeps_sessions (hasSkill name)"
  by (simp add: keeps_sessions_def hasSkill_def)

lemma keeps_execShell [keeps]: "keeps_sessions (execShell env command timeoutMs)"
  unfolding execShell_def
  by (intro keeps)
     (simp_all add: keeps_sessions_def throw_def ret_def Let_def split: prod.splits proc_outcome.splits)

lemma keeps_run_action [keeps]: "keeps_sessions (run_action env integ a)"
  by (cases a) (auto intro!: keeps)

lemma keeps_execute_loop:
  "sessions (store (snd (execute_loop env integ actions acc w))) = sessions (store w)"
proof (induction actions arbitrary: acc w)
  case Nil
  show ?case by simp
next
  case (Cons a rest)
  obtain r w' where run: "run_action env integ a w = (r, w')"
    by (cases "run_action env integ a w") auto
  have "sessions (store w') = sessions (store w)"
    using keeps_run_action [of env integ a] run by (metis keeps_sessions_def snd_conv)
  with run Cons show ?case by (cases r) simp_all
qed

lemma keeps_say [keeps]: "keeps_sessions (say msg sessionId body)"
  unfolding say_def by (intro keeps)

lemma keeps_persona_gate [keeps]: "keeps_sessions (persona_gate env msg sessionId persona parsed)"
  unfolding persona_gate_def by (intro keeps)


lemma keeps_resolve_configured [keeps]:
  "keeps_sessions (\<lambda>w. resolveAssistantName (assistantName w) w)"
  by (rule keeps_reading) (rule keeps_resolveAssistantName)

lemma keeps_identity_turn [keeps]: "keeps_sessions (identity_turn env msg uid sessionId)"
  unfolding identity_turn_def Let_def by (intro keeps)

lemma keeps_executeAgentActions [keeps]:
  "keeps_sessions (\<lambda>w. case executeAgentActions env integ actions w of
                          (actionResults, w') \<Rightarrow> (Inr actionResults, w'))"
  unfolding keeps_sessions_def executeAgentActions_def
proof
  fix w
  show "sessions (store (snd (case execute_loop env integ actions [] w of
          (actionResults, w') \<Rightarrow> (Inr actionResults, w')))) = sessions (store w)"
    using keeps_execute_loop [of env integ actions "[]" w]
    by (cases "execute_loop env integ actions [] w") simp
qed

lemma keeps_round_trip [keeps]: "keeps_sessions (round_trip env msg uid sessionId history ctx)"
  unfolding round_trip_def Let_def by (intro keeps)

lemma keeps_skill_install [keeps]: "keeps_sessions (skill_install env msg uid)"
  unfolding skill_install_def Let_def by (intro keeps)

lemma keeps_skill_restore [keeps]: "keeps_sessions (skill_restore env msg uid)"
  unfolding skill_restore_def Let_def
  by (intro keeps) (auto intro!: keeps split: option.splits)


lemma keeps_in_session [keeps]: "keeps_sessions (in_session env msg uid sessionId)"
proof -
  have recent: "keeps_sessions (\<lambda>w. (Inr (getRecentMessages sessionId 30 (store w)), w))"
    by (simp add: keeps_sessions_def)
  show ?thesis
    unfolding in_session_def Let_def by (intro keeps recent)
qed

lemma keeps_on_error [keeps]: "keeps_sessions (on_error msg error)"
proof -
  have lg: "keeps_sessions (\<lambda>w. (Inr (), w\<lparr>logged := logged w @ [error]\<rparr>))"
    by (simp add: keeps_sessions_def)
  show ?thesis
    unfolding on_error_def by (intro keeps lg)
qed

lemma find_map_preserving:
  "(\<And>r. P (f r) = P r) \<Longrightarrow> find P (map f xs) = map_option f (find P xs)"
  by (induction xs) simp_all

lemma find_SomeD: "find P xs = Some x \<Longrightarrow> x \<in> set xs \<and> P x"
  by (induction xs) (auto split: if_splits)

lemma getOrCreateSession_row:
  "\<exists>sessionId db'. getOrCreateSession ch sid db = (Inr sessionId, db')
     \<and> (\<exists>row \<in> set (sessions db'). s_channel row = ch \<and> s_sender_id row = sid
           \<and> s_updated_at row = clock db)"
proof (cases "find_session ch sid db")
  case None
  then show ?thesis
    by (simp add: getOrCreateSession_def now_def find_session_def)
next
  case (Some r0)
  let ?P = "\<lambda>r. s_channel r = ch \<and> s_sender_id r = sid"
  let ?f = "\<lambda>r. if ?P r then r\<lparr>s_updated_at := clock db\<rparr> else r"
  from Some have r0: "find ?P (sessions db) = Some r0"
    by (simp add: find_session_def)
  have "find ?P (map ?f (sessions db)) = map_option ?f (find ?P (sessions db))"
    by (rule find_map_preserving) simp
  with r0 have found: "find ?P (map ?f (sessions db)) = Some (?f r0)" by simp
  from find_SomeD [OF found] have mem: "?f r0 \<in> set (map ?f (sessions db))" and p: "?P (?f r0)"
    by blast+
  from find_SomeD [OF r0] have "?P r0" by blast
  then have upd: "s_updated_at (?f r0) = clock db" by simp
  show ?thesis
    using Some found mem p upd
    by (simp add: getOrCreateSession_def now_def find_session_def Let_def del: set_map) blast
qed

lemma upsertPairing_approved:
  "fst (fst (upsertPairing ch sid db)) \<Longrightarrow> snd (upsertPairing ch sid db) = db"
  by (simp add: upsertPairing_def generatePairingCode_def now_def split: option.splits)

lemma handleInbound_keeps_sessions_early:
  assumes "\<not> fst (fst (upsertPairing (msg_channel msg) (msg_senderId msg) (store w)))
           \<or> startsWith (msg_content msg) ''/skill install ''
           \<or> startsWith (msg_content msg) ''/skill restore ''"
  shows "sessions (store (snd (handleInbound env msg w))) = sessions (store w)"
proof -
  let ?ch = "msg_channel msg" and ?sid = "msg_senderId msg"
  let ?uid = "channel_name ?ch @ '':'' @ ?sid"
  obtain approved code db' where up: "upsertPairing ?ch ?sid (store w) = ((approved, code), db')"
    by (cases "upsertPairing ?ch ?sid (store w)") auto
  have s1: "sessions db' = sessions (store w)"
    using upsertPairing_frame [of ?ch ?sid "store w"] up by simp
  let ?w1 = "w\<lparr>store := db'\<rparr>"
  let ?next = "if \<not> approved then send_reply msg (pairing_required ?ch code)
      else if startsWith (msg_content msg) ''/skill install '' then skill_install env msg ?uid
      else skill_restore env msg ?uid"
  have t: "turn env msg w = ?next ?w1"
    using up assms by (auto simp add: turn_def bnd_def on_db_def Let_def)
  have k: "keeps_sessions (try_catch ?next (on_error msg))"
    by (intro keeps)
  have "handleInbound env msg w = try_catch ?next (on_error msg) ?w1"
    using t by (simp add: handleInbound_def try_catch_def)
  with k s1 show ?thesis
    by (simp add: keeps_sessions_def)
qed

section \<open>Reading the workspace, and the identity question\<close>

text \<open>
  A world in which the file system rejects no operation on the workspace directory.
\<close>

definition healthy :: "'x world \<Rightarrow> bool" where
  "healthy w = (fs_fault w = (\<lambda>op. None))"

lemma healthy_frame [simp]:
  "healthy (w\<lparr>files := f\<rparr>) = healthy w"
  "healthy (w\<lparr>store := db\<rparr>) = healthy w"
  "healthy (w\<lparr>ext := x\<rparr>) = healthy w"
  "healthy (w\<lparr>outbox := out\<rparr>) = healthy w"
  "healthy (w\<lparr>skills := sk\<rparr>) = healthy w"
  by (simp_all add: healthy_def)

text \<open>
  What \<open>ensureWorkspaceDocs\<close> leaves in a file when nothing is rejected: the template
  or the text it found; and the files it leaves.
\<close>

definition settle :: "string \<Rightarrow> string \<Rightarrow> string option \<Rightarrow> string" where
  "settle name template existing =
     (case existing of
        None \<Rightarrow> template
      | Some e \<Rightarrow>
          (case map_of LEGACY_DOC_TEMPLATES name of
             None \<Rightarrow> e
           | Some legacy \<Rightarrow> if legacy \<noteq> [] \<and> trim e = trim legacy then template else e))"

definition ensured :: "(string \<Rightarrow> string option) \<Rightarrow> (string \<Rightarrow> string option)" where
  "ensured fs n =
     (case map_of DOC_TEMPLATES n of
        None \<Rightarrow> fs n
      | Some template \<Rightarrow> Some (settle n template (fs n)))"

lemma ensure_doc_healthy:
  assumes "healthy w"
  shows "ensure_doc (name, template) w
         = (Inr (), w\<lparr>files := (files w)(name \<mapsto> settle name template (files w name))\<rparr>)"
proof -
  have same: "w\<lparr>files := (files w)(name \<mapsto> e)\<rparr> = w" if "files w name = Some e" for e
    using that by (simp add: fun_upd_idem)
  from assms have f: "fs_fault w = (\<lambda>op. None)"
    by (simp add: healthy_def)
  show ?thesis
  proof (cases "files w name")
    case None
    with f show ?thesis
      by (simp add: ensure_doc_def try_catch_def bnd_def readFile_def writeFile_def settle_def)
  next
    case (Some e)
    with f same [OF Some] show ?thesis
      by (simp add: ensure_doc_def try_catch_def bnd_def ret_def readFile_def writeFile_def
            settle_def
          split: option.splits)
  qed
qed

lemma ensured_apply:
  "ensured fs n =
     (if n = ''TOOLS.md'' then Some (settle n TOOLS_template (fs n))
      else if n = ''MEMORY.md'' then Some (settle n MEMORY_template (fs n))
      else if n = ''SOUL.md'' then Some (settle n SOUL_template (fs n))
      else if n = ''AGENTS.md'' then Some (settle n AGENTS_template (fs n))
      else fs n)"
  by (simp add: ensured_def DOC_TEMPLATES_def)

lemma ensureWorkspaceDocs_healthy:
  assumes "healthy w"
  shows "ensureWorkspaceDocs w = (Inr (), w\<lparr>files := ensured (files w)\<rparr>)"
proof -
  have step: "bnd (ensure_doc (name, template)) g v
              = g () (v\<lparr>files := (files v)(name \<mapsto> settle name template (files v name))\<rparr>)"
    if "healthy v" for name template v and g :: "unit \<Rightarrow> (unit, 'a) io"
    using ensure_doc_healthy [OF that, of name template] by (simp add: bnd_def)
  have "ensure_docs DOC_TEMPLATES w
        = (Inr (), w\<lparr>files := (files w)
             (''AGENTS.md'' \<mapsto> settle ''AGENTS.md'' AGENTS_template (files w ''AGENTS.md''),
              ''SOUL.md'' \<mapsto> settle ''SOUL.md'' SOUL_template (files w ''SOUL.md''),
              ''MEMORY.md'' \<mapsto> settle ''MEMORY.md'' MEMORY_template (files w ''MEMORY.md''),
              ''TOOLS.md'' \<mapsto> settle ''TOOLS.md'' TOOLS_template (files w ''TOOLS.md''))\<rparr>)"
    using assms by (simp add: DOC_TEMPLATES_def step ret_def)
  moreover have "(files w)
             (''AGENTS.md'' \<mapsto> settle ''AGENTS.md'' AGENTS_template (files w ''AGENTS.md''),
              ''SOUL.md'' \<mapsto> settle ''SOUL.md'' SOUL_template (files w ''SOUL.md''),
              ''MEMORY.md'' \<mapsto> settle ''MEMORY.md'' MEMORY_template (files w ''MEMORY.md''),
              ''TOOLS.md'' \<mapsto> settle ''TOOLS.md'' TOOLS_template (files w ''TOOLS.md''))
            = ensured (files w)"
    by (rule ext) (simp add: ensured_apply)
  ultimately show ?thesis
    using assms by (simp add: ensureWorkspaceDocs_def bnd_def mkdir_workspace_def healthy_def)
qed

lemma settle_idem: "settle n t (Some (settle n t x)) = settle n t x"
  by (cases x) (simp_all add: settle_def split: option.splits)

lemma ensured_idem: "ensured (ensured fs) = ensured fs"
  by (rule ext) (simp add: ensured_apply settle_idem)

definition doc :: "'x world \<Rightarrow> string \<Rightarrow> string" where
  "doc w n = the (ensured (files w) n)"

lemma normalize_names:
  "normalizeDocName ''AGENTS.md'' = Inr ''AGENTS.md''"
  "normalizeDocName ''SOUL.md'' = Inr ''SOUL.md''"
  "normalizeDocName ''MEMORY.md'' = Inr ''MEMORY.md''"
  "normalizeDocName ''TOOLS.md'' = Inr ''TOOLS.md''"
  by code_simp+

lemma readWorkspaceDoc_eq:
  assumes "n \<in> {''AGENTS.md'', ''SOUL.md'', ''MEMORY.md'', ''TOOLS.md''}" and "healthy w"
  shows "readWorkspaceDoc n w = (Inr (doc w n), w\<lparr>files := ensured (files w)\<rparr>)"
  using assms
  by (auto simp: readWorkspaceDoc_def bnd_def ensureWorkspaceDocs_healthy normalize_names doc_def
        ensured_apply readFile_def healthy_def)

lemma doc_ensured [simp]: "doc (w\<lparr>files := ensured (files w)\<rparr>) n = doc w n"
  by (simp add: doc_def ensured_idem)

lemma readPersona_eq:
  "healthy w \<Longrightarrow>
   readPersona d w =
     (Inr (persona_of_docs (doc w ''MEMORY.md'') (doc w ''SOUL.md'') d),
      w\<lparr>files := ensured (files w)\<rparr>)"
  by (simp add: readPersona_def bnd_def ret_def readWorkspaceDoc_eq ensured_idem)

definition docs_of :: "'x world \<Rightarrow> (string \<times> string) list" where
  "docs_of w = map (\<lambda>n. (n, doc w n)) [''AGENTS.md'', ''SOUL.md'', ''MEMORY.md'', ''TOOLS.md'']"

lemma readWorkspaceDocs_eq:
  "healthy w \<Longrightarrow>
   readWorkspaceDocs w = (Inr (docs_of w), w\<lparr>files := ensured (files w)\<rparr>)"
  by (simp add: readWorkspaceDocs_def DOC_TEMPLATES_def bnd_def ret_def ensureWorkspaceDocs_healthy
        readWorkspaceDoc_eq ensured_idem docs_of_def)

lemma resolveAssistantName_eq:
  "healthy w \<Longrightarrow>
   resolveAssistantName fallback w =
     (Inr (resolveAssistantNameFromDocs (docs_of w)
             (case fallback of None \<Rightarrow> ''GnamiBot'' | Some f \<Rightarrow> f)),
      w\<lparr>files := ensured (files w)\<rparr>)"
  by (simp add: resolveAssistantName_def bnd_def ret_def readWorkspaceDocs_eq)


lemma docs_of_ensured [simp]: "docs_of (w\<lparr>files := ensured (files w)\<rparr>) = docs_of w"
  by (simp add: docs_of_def)

text \<open>
  The persona that a turn reads from the workspace of a world, and the answer to an
  identity question in that world.
\<close>

definition stored_persona :: "'x world \<Rightarrow> Persona" where
  "stored_persona w =
     persona_of_docs (doc w ''MEMORY.md'') (doc w ''SOUL.md'')
       (case assistantName w of None \<Rightarrow> ''GnamiBot'' | Some n \<Rightarrow> n)"

definition identity_text :: "'x world \<Rightarrow> string" where
  "identity_text w =
     soulToIdentityReply (doc w ''SOUL.md'')
       (resolveAssistantNameFromDocs (docs_of w)
          (case assistantName w of None \<Rightarrow> ''GnamiBot'' | Some f \<Rightarrow> f))"

lemma identity_text_explicit:
  "identity_text w =
     (let cleaned = trim (rx_replace flags_im rx_soul_heading [] (doc w ''SOUL.md''));
          name = resolveAssistantNameFromDocs (docs_of w)
                   (case assistantName w of None \<Rightarrow> ''GnamiBot'' | Some n \<Rightarrow> n);
          generic = ''I am '' @ name
                    @ '', your local-first personal assistant running on this computer.''
      in if cleaned = [] then generic
         else (case rx_split flags_none rx_blank_line cleaned of
                 [] \<Rightarrow> generic
               | first # others \<Rightarrow> if trim first = [] then generic else trim first))"
  by (simp add: identity_text_def soulToIdentityReply_def generic_identity_def Let_def
      split: list.splits)

lemma identity_turn_outbox:
  "healthy w \<Longrightarrow>
   outbox (snd (identity_turn env msg uid sid w)) = outbox w @ [identity_text w]"
  by (simp add: identity_turn_def bnd_def Let_def readWorkspaceDoc_eq resolveAssistantName_eq
        on_db_def addMessage_def now_def remember_def addMemoryEvent_def send_reply_def
        identity_text_def
      split: prod.splits sum.splits)

definition error_text :: "thrown \<Rightarrow> string" where
  "error_text e = ''GnamiAI error: '' @ (case e of Error m \<Rightarrow> m | NonError s \<Rightarrow> ''unknown runtime failure'')"

lemma on_error_outbox: "outbox (snd (on_error msg e v)) = outbox v @ [error_text e]"
  by (simp add: on_error_def bnd_def send_reply_def error_text_def split: prod.splits)

text \<open>The \<open>catch\<close> of the handler adds its reply after whatever the turn has sent.\<close>

lemma try_catch_first_reply:
  assumes "outbox (snd (f w)) = outbox w @ [body]"
  shows "take (Suc (length (outbox w))) (outbox (snd (try_catch f (on_error msg) w)))
         = outbox w @ [body]"
proof -
  obtain r v where res: "f w = (r, v)"
    by (cases "f w") auto
  with assms have ov: "outbox v = outbox w @ [body]" by simp
  show ?thesis
  proof (cases r)
    case (Inl err)
    with res have "try_catch f (on_error msg) w = on_error msg err v"
      by (simp add: try_catch_def)
    with on_error_outbox [of msg err v] ov show ?thesis by simp
  next
    case (Inr u)
    with res have "try_catch f (on_error msg) w = (Inr u, v)"
      by (simp add: try_catch_def)
    with ov show ?thesis by simp
  qed
qed

lemma try_catch_returned: "fst (f w) = Inr u \<Longrightarrow> try_catch f h w = f w"
  by (cases "f w") (simp add: try_catch_def)

text \<open>
  No branch that a message with an identity question can take calls the model
  provider.
\<close>

lemma identity_turn_respond:
  "identity_turn (env\<lparr>respond := r\<rparr>) msg uid sid = identity_turn env msg uid sid"
  by (simp add: identity_turn_def)

lemma handleInbound_question_respond:
  assumes "isIdentityQuestion (msg_content msg)"
  shows "handleInbound (env\<lparr>respond := r\<rparr>) msg = handleInbound env msg"
proof -
  have "saveConfig (env\<lparr>respond := r\<rparr>) = saveConfig env"
    by (intro ext) (simp add: saveConfig_def)
  then have "applyPersonaSetup (env\<lparr>respond := r\<rparr>) = applyPersonaSetup env"
    by (intro ext) (simp add: applyPersonaSetup_def Let_def cong: if_cong)
  then have gate: "persona_gate (env\<lparr>respond := r\<rparr>) = persona_gate env"
    by (intro ext) (simp add: persona_gate_def cong: if_cong)
  have "in_session (env\<lparr>respond := r\<rparr>) msg uid = in_session env msg uid" for uid
    using assms
    by (intro ext) (simp add: in_session_def gate identity_turn_respond cong: if_cong)
  moreover have "skill_install (env\<lparr>respond := r\<rparr>) = skill_install env"
    by (intro ext) (simp add: skill_install_def Let_def cong: if_cong)
  moreover have "skill_restore (env\<lparr>respond := r\<rparr>) = skill_restore env"
    by (intro ext) (simp add: skill_restore_def Let_def cong: if_cong)
  ultimately show ?thesis
    by (simp add: handleInbound_def turn_def conversation_def Let_def cong: if_cong)
qed

text \<open>The turn of a paired sender whose message is not a skill command.\<close>

lemma turn_paired:
  assumes "fst (fst (upsertPairing (msg_channel msg) (msg_senderId msg) (store w)))"
    and "\<not> startsWith (msg_content msg) ''/skill install ''"
    and "\<not> startsWith (msg_content msg) ''/skill restore ''"
  shows "\<exists>sid db2. getOrCreateSession (msg_channel msg) (msg_senderId msg) (store w) = (Inr sid, db2)
      \<and> (\<forall>env. turn env msg w
             = in_session env msg (channel_name (msg_channel msg) @ '':'' @ msg_senderId msg) sid
                 (w\<lparr>store := db2\<rparr>))"
proof -
  let ?ch = "msg_channel msg" and ?sid = "msg_senderId msg"
  from assms(1) have same: "snd (upsertPairing ?ch ?sid (store w)) = store w"
    by (simp add: upsertPairing_approved)
  obtain code where up: "upsertPairing ?ch ?sid (store w) = ((True, code), store w)"
    using assms(1) same by (cases "upsertPairing ?ch ?sid (store w)") auto
  from getOrCreateSession_row [of ?ch ?sid "store w"]
  obtain sessionId db2 where g: "getOrCreateSession ?ch ?sid (store w) = (Inr sessionId, db2)"
    by blast
  have "turn env msg w = in_session env msg (channel_name ?ch @ '':'' @ ?sid) sessionId (w\<lparr>store := db2\<rparr>)"
    for env :: "'a env"
    using up assms(2,3) g
    by (simp add: turn_def conversation_def bnd_def on_db_def on_db_throwing_def Let_def)
  with g show ?thesis by blast
qed

text \<open>
  When the persona is complete, the file system rejects nothing and the memory
  service returns its context, a turn with an identity question is the identity
  branch, and its first reply is the identity text.
\<close>

lemma in_session_identity:
  assumes "healthy v"
    and "user_name (stored_persona v) \<noteq> []" "language (stored_persona v) \<noteq> []"
    and "isIdentityQuestion (msg_content msg)"
    and "addMessage sid Inbound (msg_content msg) (store v) = (mid, db3)"
    and "memory_getContext env uid (msg_content msg) (history_hint (getRecentMessages sid 30 db3))
           (ext v) = (Inr ctx, x')"
  shows "in_session env msg uid sid v
         = identity_turn env msg uid sid (v\<lparr>store := db3, ext := x', files := ensured (files v)\<rparr>)"
  using assms
  by (simp add: in_session_def bnd_def on_db_def run_ext_def readPersona_eq
        stored_persona_def doc_def Let_def)

lemma handleInbound_identity_reply:
  assumes approved: "fst (fst (upsertPairing (msg_channel msg) (msg_senderId msg) (store w)))"
    and no_install: "\<not> startsWith (msg_content msg) ''/skill install ''"
    and no_restore: "\<not> startsWith (msg_content msg) ''/skill restore ''"
    and complete: "user_name (stored_persona w) \<noteq> [] \<and> language (stored_persona w) \<noteq> []"
    and question: "isIdentityQuestion (msg_content msg)"
    and healthy: "healthy w"
    and memory: "\<forall>hint. \<exists>ctx x'. memory_getContext env
                   (channel_name (msg_channel msg) @ '':'' @ msg_senderId msg) (msg_content msg) hint
                   (ext w) = (Inr ctx, x')"
  shows "take (Suc (length (outbox w))) (outbox (snd (handleInbound env msg w)))
         = outbox w @ [identity_text w]"
proof -
  let ?uid = "channel_name (msg_channel msg) @ '':'' @ msg_senderId msg"
  from turn_paired [OF approved no_install no_restore]
  obtain sid db2 where t: "turn env msg w = in_session env msg ?uid sid (w\<lparr>store := db2\<rparr>)"
    by blast
  let ?w2 = "w\<lparr>store := db2\<rparr>"
  have sp: "stored_persona ?w2 = stored_persona w"
    by (simp add: stored_persona_def doc_def)
  obtain mid db3 where am: "addMessage sid Inbound (msg_content msg) (store ?w2) = (mid, db3)"
    by (cases "addMessage sid Inbound (msg_content msg) (store ?w2)") auto
  have "\<exists>ctx x'. memory_getContext env ?uid (msg_content msg)
      (history_hint (getRecentMessages sid 30 db3)) (ext ?w2) = (Inr ctx, x')"
    using memory by simp
  then obtain ctx x' where mem: "memory_getContext env ?uid (msg_content msg)
      (history_hint (getRecentMessages sid 30 db3)) (ext ?w2) = (Inr ctx, x')"
    by blast
  let ?w5 = "w\<lparr>store := db3, ext := x', files := ensured (files w)\<rparr>"
  have "in_session env msg ?uid sid ?w2
        = identity_turn env msg ?uid sid (?w2\<lparr>store := db3, ext := x', files := ensured (files ?w2)\<rparr>)"
    by (rule in_session_identity [OF _ _ _ question am mem]) (simp_all add: sp complete healthy)
  with t have h: "handleInbound env msg w
      = try_catch (\<lambda>v. identity_turn env msg ?uid sid (v\<lparr>store := db3, ext := x', files := ensured (files w)\<rparr>))
          (on_error msg) w"
    by (simp add: handleInbound_def try_catch_def)
  have it: "identity_text ?w5 = identity_text w"
    by (simp add: identity_text_def doc_def docs_of_def ensured_idem)
  have "outbox (snd (identity_turn env msg ?uid sid ?w5)) = outbox w @ [identity_text w]"
    using identity_turn_outbox [of ?w5 env msg ?uid sid] healthy it by simp
  then show ?thesis
    unfolding h by (rule try_catch_first_reply)
qed

text \<open>The example world: its documents, its persona and its answer.\<close>

lemma settled_docs:
  "doc settled_world ''MEMORY.md''
     = ''# MEMORY\<newline>\<newline>- User name: Ana\<newline>- Preferred language: English\<newline>''"
  "doc settled_world ''SOUL.md'' = ''# SOUL\<newline>\<newline>You are Bo.\<newline>Be kind.\<newline>\<newline>Stay brief.\<newline>''"
proof -
  have "settle ''MEMORY.md'' MEMORY_template (settled_files ''MEMORY.md'')
     = ''# MEMORY\<newline>\<newline>- User name: Ana\<newline>- Preferred language: English\<newline>''"
    by code_simp
  then show "doc settled_world ''MEMORY.md''
     = ''# MEMORY\<newline>\<newline>- User name: Ana\<newline>- Preferred language: English\<newline>''"
    by (simp add: doc_def ensured_apply settled_world_def)
  have "settle ''SOUL.md'' SOUL_template (settled_files ''SOUL.md'')
     = ''# SOUL\<newline>\<newline>You are Bo.\<newline>Be kind.\<newline>\<newline>Stay brief.\<newline>''"
    by code_simp
  then show "doc settled_world ''SOUL.md''
     = ''# SOUL\<newline>\<newline>You are Bo.\<newline>Be kind.\<newline>\<newline>Stay brief.\<newline>''"
    by (simp add: doc_def ensured_apply settled_world_def)
qed

lemma settled_persona:
  "stored_persona settled_world
     = \<lparr>assistant_name = ''Bo'', user_name = ''Ana'', language = ''English''\<rparr>"
proof -
  have "persona_of_docs ''# MEMORY\<newline>\<newline>- User name: Ana\<newline>- Preferred language: English\<newline>''
          ''# SOUL\<newline>\<newline>You are Bo.\<newline>Be kind.\<newline>\<newline>Stay brief.\<newline>'' ''GnamiBot''
        = \<lparr>assistant_name = ''Bo'', user_name = ''Ana'', language = ''English''\<rparr>"
    by code_simp
  moreover have "assistantName settled_world = Some ''GnamiBot''"
    by (simp add: settled_world_def paired_world_def demo_world_def)
  ultimately show ?thesis
    by (simp add: stored_persona_def settled_docs)
qed

lemma settled_world_fields:
  "outbox settled_world = []" "ext settled_world = 0" "healthy settled_world"
  by (simp_all add: settled_world_def paired_world_def demo_world_def healthy_def)

lemma settled_identity: "identity_text settled_world = ''You are Bo.\<newline>Be kind.''"
proof -
  have cleaned: "trim (rx_replace flags_im rx_soul_heading []
                   ''# SOUL\<newline>\<newline>You are Bo.\<newline>Be kind.\<newline>\<newline>Stay brief.\<newline>'')
                 = ''You are Bo.\<newline>Be kind.\<newline>\<newline>Stay brief.''"
    by code_simp
  have paragraphs: "rx_split flags_none rx_blank_line ''You are Bo.\<newline>Be kind.\<newline>\<newline>Stay brief.''
                    = [''You are Bo.\<newline>Be kind.'', ''Stay brief.'']"
    by code_simp
  have first: "trim ''You are Bo.\<newline>Be kind.'' = ''You are Bo.\<newline>Be kind.''"
    by code_simp
  show ?thesis
    by (simp add: identity_text_def settled_docs soulToIdentityReply_def cleaned paragraphs first)
qed

lemma bare_docs:
  "doc bare_world ''MEMORY.md''
     = ''# MEMORY\<newline>\<newline>- User name: Ana\<newline>- Preferred language: English\<newline>''"
  "doc bare_world ''SOUL.md'' = ''# SOUL\<newline>''"
proof -
  have "settle ''MEMORY.md'' MEMORY_template (bare_files ''MEMORY.md'')
     = ''# MEMORY\<newline>\<newline>- User name: Ana\<newline>- Preferred language: English\<newline>''"
    by code_simp
  then show "doc bare_world ''MEMORY.md''
     = ''# MEMORY\<newline>\<newline>- User name: Ana\<newline>- Preferred language: English\<newline>''"
    by (simp add: doc_def ensured_apply bare_world_def)
  have "settle ''SOUL.md'' SOUL_template (bare_files ''SOUL.md'') = ''# SOUL\<newline>''"
    by code_simp
  then show "doc bare_world ''SOUL.md'' = ''# SOUL\<newline>''"
    by (simp add: doc_def ensured_apply bare_world_def)
qed

lemma bare_persona:
  "stored_persona bare_world
     = \<lparr>assistant_name = ''GnamiBot'', user_name = ''Ana'', language = ''English''\<rparr>"
proof -
  have "persona_of_docs ''# MEMORY\<newline>\<newline>- User name: Ana\<newline>- Preferred language: English\<newline>''
          ''# SOUL\<newline>'' ''GnamiBot''
        = \<lparr>assistant_name = ''GnamiBot'', user_name = ''Ana'', language = ''English''\<rparr>"
    by code_simp
  moreover have "assistantName bare_world = Some ''GnamiBot''"
    by (simp add: bare_world_def paired_world_def demo_world_def)
  ultimately show ?thesis
    by (simp add: stored_persona_def bare_docs)
qed

lemma bare_world_fields:
  "outbox bare_world = []" "ext bare_world = 0" "healthy bare_world"
  "assistantName bare_world = Some ''GnamiBot''"
  by (simp_all add: bare_world_def paired_world_def demo_world_def healthy_def)

lemma bare_name:
  "resolveAssistantNameFromDocs (docs_of bare_world) ''GnamiBot'' = ''GnamiBot''"
proof -
  have "resolveAssistantNameFromDocs
          [(''AGENTS.md'', a), (''SOUL.md'', ''# SOUL\<newline>''),
           (''MEMORY.md'', ''# MEMORY\<newline>\<newline>- User name: Ana\<newline>- Preferred language: English\<newline>''),
           (''TOOLS.md'', t)] ''GnamiBot'' = ''GnamiBot''" for a t
  proof -
    have "match_trim flags_i rx_assistant_name
            ''# MEMORY\<newline>\<newline>- User name: Ana\<newline>- Preferred language: English\<newline>'' = None"
      by code_simp
    moreover have "match_trim flags_i rx_you_are_word ''# SOUL\<newline>'' = None"
      by code_simp
    ultimately show ?thesis
      by (simp add: resolveAssistantNameFromDocs_def truthy_def)
  qed
  then show ?thesis
    by (simp add: docs_of_def bare_docs)
qed

lemma bare_cleaned: "trim (rx_replace flags_im rx_soul_heading [] ''# SOUL\<newline>'') = []"
  by code_simp
section \<open>The reply of the round trip\<close>

text \<open>Executing actions sends nothing to the user.\<close>

lemma run_action_outbox: "outbox (snd (run_action env integ a w)) = outbox w"
proof (cases a)
  case (Shell command timeoutMs)
  then show ?thesis
    by (simp add: execShell_def bnd_def throw_def ret_def Let_def
          split: prod.splits sum.splits proc_outcome.splits)
next
  case (InstallSkill name body)
  then show ?thesis
    by (simp add: installSkill_def bnd_def throw_def ret_def Let_def split: prod.splits sum.splits)
next
  case (Integration app action params)
  then show ?thesis
    by (simp add: bnd_def throw_def ret_def run_ext_def split: prod.splits sum.splits)
qed

lemma executeAgentActions_outbox:
  "outbox (snd (executeAgentActions env integ actions w)) = outbox w"
  by (induction actions arbitrary: w) (simp_all add: execute_nil execute_cons run_action_outbox)

text \<open>The workspace context that a turn hands to the model, and the two requests.\<close>

definition workspace_context :: "'x world \<Rightarrow> string" where
  "workspace_context w =
     join ''\<newline>\<newline>''
       [''Core identity: You are '' @ resolveAssistantNameFromDocs (docs_of w) ''GnamiBot''
          @ '', the user'' @ [CHR 0x27] @ ''s personal assistant.'',
        join ''\<newline>\<newline>''
          (map (\<lambda>name. ''## '' @ name @ ''\<newline>''
                       @ (case map_of (docs_of w) name of None \<Rightarrow> ''undefined'' | Some d \<Rightarrow> d))
             [''AGENTS.md'', ''SOUL.md'', ''MEMORY.md'', ''TOOLS.md''])]"

lemma buildWorkspaceContext_eq:
  "healthy w \<Longrightarrow>
   buildWorkspaceContext w = (Inr (workspace_context w), w\<lparr>files := ensured (files w)\<rparr>)"
  by (simp add: buildWorkspaceContext_def bnd_def ret_def readWorkspaceDocs_eq workspace_context_def)

lemma workspace_context_frame [simp]:
  "workspace_context (w\<lparr>store := db, ext := x, files := ensured (files w)\<rparr>) = workspace_context w"
  by (simp add: workspace_context_def docs_of_def doc_def ensured_idem)

definition first_request :: "'x InboundMessage \<Rightarrow> message_row list \<Rightarrow> string \<Rightarrow> 'x world
    \<Rightarrow> AgentRequest" where
  "first_request msg history memoryContext w =
     \<lparr>a_input = msg_content msg @ ''\<newline>\<newline>Workspace context:\<newline>'' @ workspace_context w,
      a_history = history, a_thinking = ''medium'', a_memoryContext = memoryContext\<rparr>"

definition second_request :: "'x InboundMessage \<Rightarrow> message_row list \<Rightarrow> string \<Rightarrow> 'x world
    \<Rightarrow> ActionResult list \<Rightarrow> AgentRequest" where
  "second_request msg history memoryContext w actionResults =
     \<lparr>a_input = second_pass_input (msg_content msg) (actionSummary actionResults),
      a_history = history, a_thinking = ''medium'',
      a_memoryContext = join ''\<newline>\<newline>''
        (filter (\<lambda>s. s \<noteq> []) [memoryContext, workspace_context w])\<rparr>"

text \<open>The end of the round trip: the answer is stored, remembered and sent.\<close>

definition deliver :: "'x env \<Rightarrow> 'x InboundMessage \<Rightarrow> string \<Rightarrow> nat \<Rightarrow> string \<Rightarrow> (unit, 'x) io" where
  "deliver env msg uid sid answer =
     bnd (on_db (addMessage sid Outbound answer)) (\<lambda>messageId.
     bnd (remember (memory_addConversationMemory env uid (msg_content msg) answer) uid [] [])
       (\<lambda>u. send_reply msg answer))"

lemma deliver_outbox: "outbox (snd (deliver env msg uid sid answer v)) = outbox v @ [answer]"
  by (simp add: deliver_def bnd_def on_db_def remember_def send_reply_def
        split: prod.splits sum.splits)

lemma deliver_returns:
  assumes "\<forall>body x. fst (msg_reply msg body x) = Inr ()"
  shows "fst (deliver env msg uid sid answer v) = Inr ()"
proof -
  have "fst (send_reply msg answer v') = Inr ()" for v' :: "'a world"
    using assms [THEN spec, THEN spec, of answer "ext v'"]
    by (cases "msg_reply msg answer (ext v')") (simp add: send_reply_def)
  then show ?thesis
    by (simp add: deliver_def bnd_def on_db_def remember_def split: prod.splits sum.splits)
qed

text \<open>
  The round trip after a first pass that returns: the actions it executes are the
  first three that \<open>parseAgentActions\<close> finds in the first pass; without an action
  the stripped first pass is delivered, otherwise the results go to the second
  pass, whose answer decides what is delivered.
\<close>

lemma round_trip_first_pass:
  assumes healthy: "healthy w"
    and first: "respond env (first_request msg history memoryContext w) (ext w) = (Inr firstPass, x1)"
  shows "round_trip env msg uid sid history memoryContext w =
     (if parseAgentActions (json_parse env) firstPass = []
      then deliver env msg uid sid (stripAgentActions firstPass)
             (w\<lparr>files := ensured (files w), ext := x1\<rparr>)
      else
        (case executeAgentActions env True (take 3 (parseAgentActions (json_parse env) firstPass))
                (w\<lparr>files := ensured (files w), ext := x1\<rparr>) of
           (results, w2) \<Rightarrow>
             bnd (run_ext (respond env (second_request msg history memoryContext w results)))
               (\<lambda>secondPass.
                  deliver env msg uid sid (final_reply secondPass (stripAgentActions firstPass)))
               w2))"
proof (cases "parseAgentActions (json_parse env) firstPass = []")
  case True
  with first show ?thesis
    by (simp add: round_trip_def bnd_def ret_def run_ext_def buildWorkspaceContext_eq [OF healthy]
          Let_def first_request_def deliver_def)
next
  case False
  let ?actions = "take 3 (parseAgentActions (json_parse env) firstPass)"
  obtain results w2 where exec: "executeAgentActions env True ?actions
      (w\<lparr>files := ensured (files w), ext := x1\<rparr>) = (results, w2)"
    by (cases "executeAgentActions env True ?actions (w\<lparr>files := ensured (files w), ext := x1\<rparr>)")
       auto
  obtain r x2 where second: "respond env (second_request msg history memoryContext w results) (ext w2)
      = (r, x2)"
    by (cases "respond env (second_request msg history memoryContext w results) (ext w2)") auto
  from False have some: "?actions \<noteq> []" by simp
  show ?thesis
  proof (cases r)
    case (Inl e)
    with first False some exec second show ?thesis
      by (simp add: round_trip_def bnd_def ret_def run_ext_def
            buildWorkspaceContext_eq [OF healthy] Let_def first_request_def
            second_request_def)
  next
    case (Inr secondPass)
    with first False some exec second show ?thesis
      by (simp add: round_trip_def bnd_def ret_def run_ext_def
            buildWorkspaceContext_eq [OF healthy] Let_def first_request_def
            second_request_def deliver_def)
  qed
qed

lemma round_trip_deliver:
  assumes healthy: "healthy w"
    and first: "respond env (first_request msg history memoryContext w) (ext w) = (Inr firstPass, x1)"
    and acts: "parseAgentActions (json_parse env) firstPass \<noteq> []"
    and exec: "executeAgentActions env True (take 3 (parseAgentActions (json_parse env) firstPass))
                 (w\<lparr>files := ensured (files w), ext := x1\<rparr>) = (results, w2)"
    and second: "respond env (second_request msg history memoryContext w results) (ext w2)
                 = (Inr secondPass, x2)"
  shows "round_trip env msg uid sid history memoryContext w
         = deliver env msg uid sid (final_reply secondPass (stripAgentActions firstPass))
             (w2\<lparr>ext := x2\<rparr>)"
  using acts exec second
  by (simp add: round_trip_first_pass [OF healthy first] bnd_def run_ext_def)

lemma round_trip_outbox:
  assumes healthy: "healthy w"
    and first: "respond env (first_request msg history memoryContext w) (ext w) = (Inr firstPass, x1)"
    and acts: "parseAgentActions (json_parse env) firstPass \<noteq> []"
    and exec: "executeAgentActions env True (take 3 (parseAgentActions (json_parse env) firstPass))
                 (w\<lparr>files := ensured (files w), ext := x1\<rparr>) = (results, w2)"
    and second: "respond env (second_request msg history memoryContext w results) (ext w2)
                 = (Inr secondPass, x2)"
  shows "outbox (snd (round_trip env msg uid sid history memoryContext w))
         = outbox w @ [final_reply secondPass (stripAgentActions firstPass)]"
proof -
  from executeAgentActions_outbox [of env True
      "take 3 (parseAgentActions (json_parse env) firstPass)"
      "w\<lparr>files := ensured (files w), ext := x1\<rparr>"] exec
  have "outbox w2 = outbox w" by simp
  then show ?thesis
    by (simp add: round_trip_deliver [OF healthy first acts exec second] deliver_outbox)
qed

lemma round_trip_returns:
  assumes healthy: "healthy w"
    and first: "respond env (first_request msg history memoryContext w) (ext w) = (Inr firstPass, x1)"
    and acts: "parseAgentActions (json_parse env) firstPass \<noteq> []"
    and exec: "executeAgentActions env True (take 3 (parseAgentActions (json_parse env) firstPass))
                 (w\<lparr>files := ensured (files w), ext := x1\<rparr>) = (results, w2)"
    and second: "respond env (second_request msg history memoryContext w results) (ext w2)
                 = (Inr secondPass, x2)"
    and reply: "\<forall>body x. fst (msg_reply msg body x) = Inr ()"
  shows "fst (round_trip env msg uid sid history memoryContext w) = Inr ()"
  by (simp add: round_trip_deliver [OF healthy first acts exec second] deliver_returns [OF reply])

text \<open>
  A turn of an approved sender with a complete persona whose message is neither a
  skill command nor an identity question is the round trip, once the memory service
  has returned its context.
\<close>

lemma in_session_round_trip:
  assumes "healthy v"
    and "user_name (stored_persona v) \<noteq> []" "language (stored_persona v) \<noteq> []"
    and "\<not> isIdentityQuestion (msg_content msg)"
    and "addMessage sid Inbound (msg_content msg) (store v) = (mid, db3)"
    and "memory_getContext env uid (msg_content msg) (history_hint (getRecentMessages sid 30 db3))
           (ext v) = (Inr ctx, x')"
  shows "in_session env msg uid sid v
         = round_trip env msg uid sid (getRecentMessages sid 30 db3) ctx
             (v\<lparr>store := db3, ext := x', files := ensured (files v)\<rparr>)"
  using assms
  by (simp add: in_session_def bnd_def on_db_def run_ext_def readPersona_eq
        stored_persona_def doc_def Let_def)

lemma handleInbound_round_trip:
  assumes approved: "fst (fst (upsertPairing (msg_channel msg) (msg_senderId msg) (store w)))"
    and no_install: "\<not> startsWith (msg_content msg) ''/skill install ''"
    and no_restore: "\<not> startsWith (msg_content msg) ''/skill restore ''"
    and complete: "user_name (stored_persona w) \<noteq> [] \<and> language (stored_persona w) \<noteq> []"
    and other: "\<not> isIdentityQuestion (msg_content msg)"
    and healthy: "healthy w"
    and memory: "\<forall>hint. memory_getContext env
                   (channel_name (msg_channel msg) @ '':'' @ msg_senderId msg) (msg_content msg) hint
                   (ext w) = (Inr ctx, x')"
  shows "\<exists>sid db history. handleInbound env msg w
           = try_catch (round_trip env msg
               (channel_name (msg_channel msg) @ '':'' @ msg_senderId msg) sid history ctx)
               (on_error msg) (w\<lparr>store := db, ext := x', files := ensured (files w)\<rparr>)"
proof -
  let ?uid = "channel_name (msg_channel msg) @ '':'' @ msg_senderId msg"
  from turn_paired [OF approved no_install no_restore]
  obtain sid db2 where t: "turn env msg w = in_session env msg ?uid sid (w\<lparr>store := db2\<rparr>)"
    by blast
  let ?w2 = "w\<lparr>store := db2\<rparr>"
  have sp: "stored_persona ?w2 = stored_persona w"
    by (simp add: stored_persona_def doc_def)
  obtain mid db3 where am: "addMessage sid Inbound (msg_content msg) (store ?w2) = (mid, db3)"
    by (cases "addMessage sid Inbound (msg_content msg) (store ?w2)") auto
  have mem: "memory_getContext env ?uid (msg_content msg)
               (history_hint (getRecentMessages sid 30 db3)) (ext ?w2) = (Inr ctx, x')"
    using memory by simp
  have "in_session env msg ?uid sid ?w2
        = round_trip env msg ?uid sid (getRecentMessages sid 30 db3) ctx
            (?w2\<lparr>store := db3, ext := x', files := ensured (files ?w2)\<rparr>)"
    by (rule in_session_round_trip [OF _ _ _ other am mem]) (simp_all add: sp complete healthy)
  with t have "handleInbound env msg w
      = try_catch (round_trip env msg ?uid sid (getRecentMessages sid 30 db3) ctx) (on_error msg)
          (w\<lparr>store := db3, ext := x', files := ensured (files w)\<rparr>)"
    by (simp add: handleInbound_def try_catch_def)
  then show ?thesis by blast
qed

text \<open>The example turn: what the two providers' answers ask for, and its shell action.\<close>

lemma example_passes:
  "parseAgentActions demo_parse chatty_response = [Shell ''ls'' None]"
  "stripAgentActions chatty_response = ''On it.''"
  "parseAgentActions demo_parse demo_block = [Shell ''ls'' None]"
  "stripAgentActions demo_block = []"
  by code_simp+

lemma example_action_ext:
  "spawn env = spawn demo_env \<Longrightarrow>
   ext (snd (executeAgentActions env True [Shell ''ls'' None] v)) = Suc (ext v)"
  by (simp add: execute_cons execute_nil execShell_def bnd_def throw_def ret_def Let_def demo_env_def
      split: prod.splits sum.splits proc_outcome.splits)
section \<open>Properties of the store\<close>

lemma update_approved_rows:
  "fst (update_approved ch c rs) =
     map (\<lambda>r. if pairing_matches ch c r then r\<lparr>p_approved := 1\<rparr> else r) rs"
  by (induction rs) (auto split: prod.splits)

lemma update_approved_changes:
  "snd (update_approved ch c rs) = length (filter (pairing_matches ch c) rs)"
  by (induction rs) (auto split: prod.splits)

lemma length_filter_count_list:
  "length (filter (\<lambda>r. f r = c) xs) = count_list (map f xs) c"
  by (induction xs) auto

lemma distinct_count_list_le_1: "distinct xs \<Longrightarrow> count_list xs c \<le> 1"
  by (induction xs) auto

lemma mem_set_map: "x \<in> set xs \<Longrightarrow> f x \<in> set (map f xs)"
  by simp

text \<open>
  C10. \<open>approvePairing\<close> selects pairing rows by channel and code only, never by
  sender id: every row of the table on that channel with that code ends up approved
  (whether or not it already was), every other row is left as it is, and the call
  returns true exactly when at least one row was selected. When the codes on the
  channel are pairwise distinct a successful call selects exactly one row; when
  two senders on the channel share the code, both of their rows are approved.
\<close>

theorem approvePairing_by_channel_and_code:
  "pairings (snd (approvePairing ch c db)) =
     map (\<lambda>r. if p_channel r = ch \<and> p_code r = c then r\<lparr>p_approved := 1\<rparr> else r) (pairings db)
   \<and> fst (approvePairing ch c db) = (\<exists>r \<in> set (pairings db). p_channel r = ch \<and> p_code r = c)
   \<and> (distinct (map p_code (filter (\<lambda>r. p_channel r = ch) (pairings db)))
        \<and> fst (approvePairing ch c db)
      \<longrightarrow> length (filter (\<lambda>r. p_channel r = ch \<and> p_code r = c) (pairings db)) = 1)
   \<and> (\<forall>r1 \<in> set (pairings db). \<forall>r2 \<in> set (pairings db).
        p_channel r1 = ch \<and> p_code r1 = c \<and> p_channel r2 = ch \<and> p_code r2 = c
        \<and> p_sender_id r1 \<noteq> p_sender_id r2
      \<longrightarrow> r1\<lparr>p_approved := 1\<rparr> \<in> set (pairings (snd (approvePairing ch c db)))
        \<and> r2\<lparr>p_approved := 1\<rparr> \<in> set (pairings (snd (approvePairing ch c db))))"
proof -
  let ?P = "\<lambda>r. p_channel r = ch \<and> p_code r = c"
  let ?after = "pairings (snd (approvePairing ch c db))"
  have rows: "?after = map (\<lambda>r. if ?P r then r\<lparr>p_approved := 1\<rparr> else r) (pairings db)"
    using update_approved_rows [of ch c "pairings db"]
    by (cases "update_approved ch c (pairings db)")
       (simp add: approvePairing_def pairing_matches_def [abs_def])
  have ret: "fst (approvePairing ch c db) = (0 < length (filter ?P (pairings db)))"
    using update_approved_changes [of ch c "pairings db"]
    by (cases "update_approved ch c (pairings db)")
       (simp add: approvePairing_def pairing_matches_def [abs_def])
  have some: "fst (approvePairing ch c db) = (\<exists>r \<in> set (pairings db). ?P r)"
    unfolding ret by (simp add: filter_empty_conv)
  have one: "length (filter ?P (pairings db)) = 1"
    if d: "distinct (map p_code (filter (\<lambda>r. p_channel r = ch) (pairings db)))"
      and ok: "fst (approvePairing ch c db)"
  proof -
    let ?on = "filter (\<lambda>r. p_channel r = ch) (pairings db)"
    have "length (filter ?P (pairings db)) = length (filter (\<lambda>r. p_code r = c) ?on)"
      by simp
    also have "\<dots> = count_list (map p_code ?on) c"
      by (rule length_filter_count_list)
    also have "\<dots> \<le> 1"
      using d by (rule distinct_count_list_le_1)
    finally have "length (filter ?P (pairings db)) \<le> 1" .
    moreover have "0 < length (filter ?P (pairings db))"
      using ok ret by simp
    ultimately show ?thesis by linarith
  qed
  have both: "r\<lparr>p_approved := 1\<rparr> \<in> set ?after" if "r \<in> set (pairings db)" "?P r" for r
  proof -
    have "(if ?P r then r\<lparr>p_approved := 1\<rparr> else r) \<in> set ?after"
      unfolding rows using that(1) by (rule mem_set_map)
    then show ?thesis using that(2) by simp
  qed
  have pair: "\<forall>r1 \<in> set (pairings db). \<forall>r2 \<in> set (pairings db).
        p_channel r1 = ch \<and> p_code r1 = c \<and> p_channel r2 = ch \<and> p_code r2 = c
        \<and> p_sender_id r1 \<noteq> p_sender_id r2
      \<longrightarrow> r1\<lparr>p_approved := 1\<rparr> \<in> set ?after \<and> r2\<lparr>p_approved := 1\<rparr> \<in> set ?after"
    using both by blast
  show ?thesis
    apply (intro conjI)
       apply (rule rows)
      apply (rule some)
     apply (rule impI, erule conjE, erule (1) one)
    apply (rule pair)
    done
qed

definition collision_db :: store where
  "collision_db =
     \<lparr>pairings =
        [\<lparr>p_channel = Webchat, p_sender_id = ''alice'', p_approved = 0, p_code = ''123456'', p_created_at = 0\<rparr>,
         \<lparr>p_channel = Webchat, p_sender_id = ''bob'', p_approved = 1, p_code = ''123456'', p_created_at = 1\<rparr>,
         \<lparr>p_channel = Telegram, p_sender_id = ''carol'', p_approved = 0, p_code = ''123456'', p_created_at = 2\<rparr>,
         \<lparr>p_channel = Webchat, p_sender_id = ''dave'', p_approved = 0, p_code = ''654321'', p_created_at = 3\<rparr>],
      sessions = [], messages = [], memory_events = [],
      seq_sessions = 0, seq_messages = 0, clock = 4, entropy = (\<lambda>n. n), draws = 4\<rparr>"

theorem approvePairing_by_channel_and_code_witness:
  "fst (approvePairing Webchat ''123456'' collision_db)
   \<and> map (\<lambda>r. (p_sender_id r, p_approved r)) (pairings (snd (approvePairing Webchat ''123456'' collision_db)))
       = [(''alice'', 1), (''bob'', 1), (''carol'', 0), (''dave'', 0)]
   \<and> distinct (map p_code (filter (\<lambda>r. p_channel r = Webchat) (pairings collision_db))) = False
   \<and> distinct (map p_code (filter (\<lambda>r. p_channel r = Telegram) (pairings collision_db)))
   \<and> fst (approvePairing Telegram ''123456'' collision_db)
   \<and> length (filter (\<lambda>r. p_channel r = Telegram \<and> p_code r = ''123456'') (pairings collision_db)) = 1
   \<and> \<not> fst (approvePairing Telegram ''000000'' collision_db)"
  using approvePairing_by_channel_and_code [of Webchat "''123456''" collision_db]
    approvePairing_by_channel_and_code [of Telegram "''123456''" collision_db]
    approvePairing_by_channel_and_code [of Telegram "''000000''" collision_db]
  by (simp add: collision_db_def)

section \<open>Claims about the action protocol\<close>

text \<open>
  C1, as stated: for every text, \<open>parseAgentActions\<close> returns exactly one action for
  each well-formed fenced block, a block whose body parses as a JSON object of a
  known variant. This fails for a block whose JSON holds a fence inside a string:
  the scan ends the block at that fence, what it has read is not JSON, and the block
  is skipped. Here the body between the marker and the closing fence of the text is
  a shell action, and no action is returned.
\<close>

theorem fence_inside_body_loses_action:
  "fenced_text = marker @ ''\<newline>'' @ fenced_body @ ''\<newline>'' @ fence
   \<and> fenced_parse (trim fenced_body)
       = Some (JObj [(''type'', JStr ''shell''), (''command'', JStr ''echo ```'')])
   \<and> well_formed fenced_parse fenced_body
   \<and> parseAgentActions fenced_parse fenced_text = []"
proof -
  have "fenced_text = marker @ ''\<newline>'' @ fenced_body @ ''\<newline>'' @ fence"
    by code_simp
  moreover have "fenced_parse (trim fenced_body)
      = Some (JObj [(''type'', JStr ''shell''), (''command'', JStr ''echo ```'')])"
    by code_simp
  moreover have "well_formed fenced_parse fenced_body"
    by code_simp
  moreover have "parseAgentActions fenced_parse fenced_text = []"
    by code_simp
  ultimately show ?thesis by (intro conjI)
qed

text \<open>
  C1, amended. Every text has one scan from left to right, in which a block starts
  at the first marker \<open>```gnami-action\<close> after the block before it and ends at the
  first fence \<open>```\<close> after that marker. \<open>parseAgentActions\<close> returns exactly one
  action for each block of the scan whose body (trimmed) parses as a JSON object of
  a known variant, in the order of the blocks, and nothing for any other block. The
  round trip of a turn executes the first three of these actions and no other: it
  goes on from the results and the world of executing them, to the second pass when
  there is a result and to the delivery of the stripped first pass when there is
  none.
\<close>

theorem parseAgentActions_scan:
  "(\<exists>bodies pieces. scan s bodies pieces)
   \<and> (scan s bodies pieces \<longrightarrow>
        parseAgentActions jp s
          = map (\<lambda>b. the (block_action jp b)) (filter (well_formed jp) bodies)
        \<and> length (parseAgentActions jp s) = length (filter (well_formed jp) bodies))
   \<and> (healthy w
        \<and> respond env (first_request msg history memoryContext w) (ext w) = (Inr firstPass, x1)
      \<longrightarrow> (\<exists>results w2.
             executeAgentActions env True (take 3 (parseAgentActions (json_parse env) firstPass))
               (w\<lparr>files := ensured (files w), ext := x1\<rparr>) = (results, w2)
             \<and> map r_action results = take 3 (parseAgentActions (json_parse env) firstPass)
             \<and> length results = min 3 (length (parseAgentActions (json_parse env) firstPass))
             \<and> round_trip env msg uid sid history memoryContext w
                 = (if results = []
                    then deliver env msg uid sid (stripAgentActions firstPass) w2
                    else bnd (run_ext (respond env
                                (second_request msg history memoryContext w results)))
                           (\<lambda>secondPass. deliver env msg uid sid
                              (final_reply secondPass (stripAgentActions firstPass)))
                           w2)))"
proof (intro conjI impI)
  show "\<exists>bodies pieces. scan s bodies pieces"
    by (rule scan_exists)
next
  assume "scan s bodies pieces"
  then show "parseAgentActions jp s
      = map (\<lambda>b. the (block_action jp b)) (filter (well_formed jp) bodies)"
    by (rule scan_parse)
  then show "length (parseAgentActions jp s) = length (filter (well_formed jp) bodies)"
    by simp
next
  let ?parsed = "parseAgentActions (json_parse env) firstPass"
  let ?w1 = "w\<lparr>files := ensured (files w), ext := x1\<rparr>"
  assume a: "healthy w
      \<and> respond env (first_request msg history memoryContext w) (ext w) = (Inr firstPass, x1)"
  obtain results w2 where exec: "executeAgentActions env True (take 3 ?parsed) ?w1 = (results, w2)"
    by (cases "executeAgentActions env True (take 3 ?parsed) ?w1") auto
  from execute_actions [of env True "take 3 ?parsed" ?w1] exec
  have acts: "map r_action results = take 3 ?parsed" by simp
  from execute_length [of env True "take 3 ?parsed" ?w1] exec
  have len: "length results = min 3 (length ?parsed)" by (simp add: min.commute)
  have "round_trip env msg uid sid history memoryContext w
      = (if results = []
         then deliver env msg uid sid (stripAgentActions firstPass) w2
         else bnd (run_ext (respond env (second_request msg history memoryContext w results)))
                (\<lambda>secondPass. deliver env msg uid sid
                   (final_reply secondPass (stripAgentActions firstPass)))
                w2)"
  proof (cases "?parsed = []")
    case True
    with exec have "results = []" "w2 = ?w1" by (simp_all add: execute_nil)
    with True a show ?thesis
      by (simp add: round_trip_first_pass)
  next
    case False
    with len have "results \<noteq> []" by (cases "parseAgentActions (json_parse env) firstPass") auto
    with False a exec show ?thesis
      by (simp add: round_trip_first_pass)
  qed
  with exec acts len
  show "\<exists>results w2.
             executeAgentActions env True (take 3 (parseAgentActions (json_parse env) firstPass))
               (w\<lparr>files := ensured (files w), ext := x1\<rparr>) = (results, w2)
             \<and> map r_action results = take 3 (parseAgentActions (json_parse env) firstPass)
             \<and> length results = min 3 (length (parseAgentActions (json_parse env) firstPass))
             \<and> round_trip env msg uid sid history memoryContext w
                 = (if results = []
                    then deliver env msg uid sid (stripAgentActions firstPass) w2
                    else bnd (run_ext (respond env
                                (second_request msg history memoryContext w results)))
                           (\<lambda>secondPass. deliver env msg uid sid
                              (final_reply secondPass (stripAgentActions firstPass)))
                           w2)"
    by blast
qed

theorem parseAgentActions_scan_witness:
  "scan demo_response
     [demo_body, '' {\"type\":'', demo_body, ''{\"type\":\"reboot\"}'', demo_body, demo_body]
     [''On it. '', '' '', [], [], [], '' and '', []]
   \<and> filter (well_formed demo_parse)
       [demo_body, '' {\"type\":'', demo_body, ''{\"type\":\"reboot\"}'', demo_body, demo_body]
       = [demo_body, demo_body, demo_body, demo_body]
   \<and> parseAgentActions demo_parse demo_response = [Shell ''ls'' None, Shell ''ls'' None, Shell ''ls'' None, Shell ''ls'' None]
   \<and> healthy settled_world
   \<and> respond busy_env (first_request list_files [] [] settled_world) (ext settled_world)
       = (Inr demo_response, 1)
   \<and> (\<exists>results w2.
         executeAgentActions busy_env True [Shell ''ls'' None, Shell ''ls'' None, Shell ''ls'' None]
           (settled_world\<lparr>files := ensured (files settled_world), ext := 1\<rparr>) = (results, w2)
         \<and> map r_action results = [Shell ''ls'' None, Shell ''ls'' None, Shell ''ls'' None]
         \<and> length results = 3
         \<and> round_trip busy_env list_files ''webchat:u1'' 1 [] [] settled_world
             = bnd (run_ext (respond busy_env (second_request list_files [] [] settled_world results)))
                 (\<lambda>secondPass. deliver busy_env list_files ''webchat:u1'' 1
                    (final_reply secondPass (stripAgentActions demo_response)))
                 w2)"
proof -
  have b1: "first_block (demo_response) ''On it. '' demo_body ('' ```gnami-action {\"type\":```'' @ demo_block @ ''```gnami-action{\"type\":\"reboot\"}```'' @ demo_block @ '' and '' @ demo_block)"
    by code_simp
  have b2: "first_block ('' ```gnami-action {\"type\":```'' @ demo_block @ ''```gnami-action{\"type\":\"reboot\"}```'' @ demo_block @ '' and '' @ demo_block) '' '' '' {\"type\":'' (demo_block @ ''```gnami-action{\"type\":\"reboot\"}```'' @ demo_block @ '' and '' @ demo_block)"
    by code_simp
  have b3: "first_block (demo_block @ ''```gnami-action{\"type\":\"reboot\"}```'' @ demo_block @ '' and '' @ demo_block) [] demo_body (''```gnami-action{\"type\":\"reboot\"}```'' @ demo_block @ '' and '' @ demo_block)"
    by code_simp
  have b4: "first_block (''```gnami-action{\"type\":\"reboot\"}```'' @ demo_block @ '' and '' @ demo_block) [] ''{\"type\":\"reboot\"}'' (demo_block @ '' and '' @ demo_block)"
    by code_simp
  have b5: "first_block (demo_block @ '' and '' @ demo_block) [] demo_body ('' and '' @ demo_block)"
    by code_simp
  have b6: "first_block ('' and '' @ demo_block) '' and '' demo_body ([])"
    by code_simp
  have "no_block []"
    by (simp add: no_block_def marker_def)
  then have "scan [] [] [[]]"
    by (rule scan_end)
  with b6 have "scan ('' and '' @ demo_block) [demo_body] ['' and '', []]"
    by (rule scan_block)
  with b5 have "scan (demo_block @ '' and '' @ demo_block) [demo_body, demo_body] [[], '' and '', []]"
    by (rule scan_block)
  with b4 have "scan (''```gnami-action{\"type\":\"reboot\"}```'' @ demo_block @ '' and '' @ demo_block) [''{\"type\":\"reboot\"}'', demo_body, demo_body] [[], [], '' and '', []]"
    by (rule scan_block)
  with b3 have "scan (demo_block @ ''```gnami-action{\"type\":\"reboot\"}```'' @ demo_block @ '' and '' @ demo_block) [demo_body, ''{\"type\":\"reboot\"}'', demo_body, demo_body] [[], [], [], '' and '', []]"
    by (rule scan_block)
  with b2 have "scan ('' ```gnami-action {\"type\":```'' @ demo_block @ ''```gnami-action{\"type\":\"reboot\"}```'' @ demo_block @ '' and '' @ demo_block) ['' {\"type\":'', demo_body, ''{\"type\":\"reboot\"}'', demo_body, demo_body] ['' '', [], [], [], '' and '', []]"
    by (rule scan_block)
  with b1 have sc: "scan demo_response
     [demo_body, '' {\"type\":'', demo_body, ''{\"type\":\"reboot\"}'', demo_body, demo_body]
     [''On it. '', '' '', [], [], [], '' and '', []]"
    by (rule scan_block)
  have wf: "filter (well_formed demo_parse)
       [demo_body, '' {\"type\":'', demo_body, ''{\"type\":\"reboot\"}'', demo_body, demo_body]
       = [demo_body, demo_body, demo_body, demo_body]"
    by code_simp
  have act: "the (block_action demo_parse demo_body) = Shell ''ls'' None"
    by code_simp
  note T = parseAgentActions_scan [of demo_response _ _ demo_parse settled_world busy_env
      list_files "[]" "[]" demo_response 1 "''webchat:u1''" 1]
  from T [THEN conjunct2, THEN conjunct1, THEN mp, OF sc, THEN conjunct1, unfolded wf]
  have parsed: "parseAgentActions demo_parse demo_response = [Shell ''ls'' None, Shell ''ls'' None, Shell ''ls'' None, Shell ''ls'' None]"
    by (simp add: act)
  have first: "respond busy_env (first_request list_files [] [] settled_world) (ext settled_world)
      = (Inr demo_response, 1)"
    by (simp add: busy_env_def settled_world_fields)
  have jp: "json_parse busy_env = demo_parse"
    by (simp add: busy_env_def demo_env_def)
  from T [THEN conjunct2, THEN conjunct2, THEN mp, OF conjI, OF settled_world_fields(3) first]
  obtain results w2 where r: "executeAgentActions busy_env True [Shell ''ls'' None, Shell ''ls'' None, Shell ''ls'' None]
           (settled_world\<lparr>files := ensured (files settled_world), ext := 1\<rparr>) = (results, w2)"
      "map r_action results = [Shell ''ls'' None, Shell ''ls'' None, Shell ''ls'' None]"
      "length results = 3"
      "round_trip busy_env list_files ''webchat:u1'' 1 [] [] settled_world
             = (if results = []
                then deliver busy_env list_files ''webchat:u1'' 1 (stripAgentActions demo_response) w2
                else bnd (run_ext (respond busy_env
                            (second_request list_files [] [] settled_world results)))
                       (\<lambda>secondPass. deliver busy_env list_files ''webchat:u1'' 1
                          (final_reply secondPass (stripAgentActions demo_response)))
                       w2)"
    by (auto simp: jp parsed)
  from r(3) have "results \<noteq> []" by auto
  with r have "\<exists>results w2.
         executeAgentActions busy_env True [Shell ''ls'' None, Shell ''ls'' None, Shell ''ls'' None]
           (settled_world\<lparr>files := ensured (files settled_world), ext := 1\<rparr>) = (results, w2)
         \<and> map r_action results = [Shell ''ls'' None, Shell ''ls'' None, Shell ''ls'' None]
         \<and> length results = 3
         \<and> round_trip busy_env list_files ''webchat:u1'' 1 [] [] settled_world
             = bnd (run_ext (respond busy_env (second_request list_files [] [] settled_world results)))
                 (\<lambda>secondPass. deliver busy_env list_files ''webchat:u1'' 1
                    (final_reply secondPass (stripAgentActions demo_response)))
                 w2"
    by auto
  with sc wf parsed settled_world_fields(3) first show ?thesis
    by (intro conjI)
qed

text \<open>
  C2. For every list of actions, \<open>executeAgentActions\<close> returns one result per
  action, in the order of the actions. The result at a position is the outcome of
  running the action at that position in the world its predecessors left behind,
  whether or not they failed: what the action throws is caught and recorded with
  \<open>ok = false\<close> and the message of the error, what it returns is recorded with
  \<open>ok = true\<close>. In particular a failing action followed by a succeeding one gives
  two results, \<open>ok = false\<close> and then \<open>ok = true\<close>.
\<close>

theorem executeAgentActions_one_result_per_action:
  "map r_action (fst (executeAgentActions env integ actions w)) = actions
   \<and> length (fst (executeAgentActions env integ actions w)) = length actions
   \<and> (\<forall>i < length actions.
        fst (executeAgentActions env integ actions w) ! i =
          (case fst (run_action env integ (actions ! i)
                       (snd (executeAgentActions env integ (take i actions) w))) of
             Inl error \<Rightarrow> \<lparr>r_action = actions ! i, r_ok = False, r_output = message_of error\<rparr>
           | Inr out \<Rightarrow> \<lparr>r_action = actions ! i, r_ok = True, r_output = out\<rparr>))
   \<and> (\<forall>a b error out w1 w2.
        run_action env integ a w = (Inl error, w1) \<and> run_action env integ b w1 = (Inr out, w2)
        \<longrightarrow> fst (executeAgentActions env integ [a, b] w) =
              [\<lparr>r_action = a, r_ok = False, r_output = message_of error\<rparr>,
               \<lparr>r_action = b, r_ok = True, r_output = out\<rparr>])"
proof (intro conjI allI impI)
  show "map r_action (fst (executeAgentActions env integ actions w)) = actions"
    by (rule execute_actions)
  show "length (fst (executeAgentActions env integ actions w)) = length actions"
    by (rule execute_length)
next
  fix i assume "i < length actions"
  from execute_nth [OF this, of env integ w]
  show "fst (executeAgentActions env integ actions w) ! i =
          (case fst (run_action env integ (actions ! i)
                       (snd (executeAgentActions env integ (take i actions) w))) of
             Inl error \<Rightarrow> \<lparr>r_action = actions ! i, r_ok = False, r_output = message_of error\<rparr>
           | Inr out \<Rightarrow> \<lparr>r_action = actions ! i, r_ok = True, r_output = out\<rparr>)"
    by (simp add: result_for_def)
next
  fix a b err out w1 w2
  assume "run_action env integ a w = (Inl err, w1) \<and> run_action env integ b w1 = (Inr out, w2)"
  then show "fst (executeAgentActions env integ [a, b] w) =
              [\<lparr>r_action = a, r_ok = False, r_output = message_of err\<rparr>,
               \<lparr>r_action = b, r_ok = True, r_output = out\<rparr>]"
    by (simp add: execute_cons execute_nil result_for_def)
qed

theorem executeAgentActions_one_result_per_action_witness:
  "fst (run_action demo_env True (Shell ''false'' None) demo_world)
     = Inl (Error ''Command failed with exit code 1'')
   \<and> fst (run_action demo_env True (Shell ''ls'' None)
            (snd (run_action demo_env True (Shell ''false'' None) demo_world)))
     = Inr ''done''
   \<and> fst (executeAgentActions demo_env True [Shell ''false'' None, Shell ''ls'' None] demo_world)
     = [\<lparr>r_action = Shell ''false'' None, r_ok = False, r_output = ''Command failed with exit code 1''\<rparr>,
        \<lparr>r_action = Shell ''ls'' None, r_ok = True, r_output = ''done''\<rparr>]
   \<and> (1::nat) < length [Shell ''false'' None, Shell ''ls'' None]
   \<and> fst (executeAgentActions demo_env True [Shell ''false'' None, Shell ''ls'' None] demo_world) ! 1
     = \<lparr>r_action = Shell ''ls'' None, r_ok = True, r_output = ''done''\<rparr>"
proof -
  let ?w1 = "snd (run_action demo_env True (Shell ''false'' None) demo_world)"
  let ?w2 = "snd (run_action demo_env True (Shell ''ls'' None) ?w1)"
  have one: "show_int 1 = ''1''"
    by code_simp
  have trims: "trim ''done\<newline>'' = ''done''" "trim [] = []"
    by code_simp+
  have f1: "fst (run_action demo_env True (Shell ''false'' None) demo_world)
     = Inl (Error ''Command failed with exit code 1'')"
    by (simp add: execShell_def bnd_def throw_def ret_def demo_env_def one trims)
  have f2: "fst (run_action demo_env True (Shell ''ls'' None) ?w1) = Inr ''done''"
    by (simp add: execShell_def bnd_def throw_def ret_def demo_env_def one trims)
  have r1: "run_action demo_env True (Shell ''false'' None) demo_world
     = (Inl (Error ''Command failed with exit code 1''), ?w1)"
    using f1 by (simp add: prod_eq_iff)
  have r2: "run_action demo_env True (Shell ''ls'' None) ?w1 = (Inr ''done'', ?w2)"
    using f2 by (simp add: prod_eq_iff)
  note T = executeAgentActions_one_result_per_action
         [of demo_env True "[Shell ''false'' None, Shell ''ls'' None]" demo_world]
  from T [THEN conjunct2, THEN conjunct2, THEN conjunct2, THEN spec, THEN spec, THEN spec,
      THEN spec, THEN spec, THEN spec, THEN mp, OF conjI, OF r1 r2]
  have two:
    "fst (executeAgentActions demo_env True [Shell ''false'' None, Shell ''ls'' None] demo_world)
     = [\<lparr>r_action = Shell ''false'' None, r_ok = False,
          r_output = message_of (Error ''Command failed with exit code 1'')\<rparr>,
        \<lparr>r_action = Shell ''ls'' None, r_ok = True, r_output = ''done''\<rparr>]" .
  show ?thesis
    using f1 f2 two by simp
qed

section \<open>Claims about the removal of action blocks\<close>

text \<open>
  C3, as stated: for every text, scanning \<open>stripAgentActions(text)\<close> for fenced
  action blocks finds none. This fails: removing a block can join the text before
  it and the text after it into a new block. Here two backticks, an empty block and
  the rest of a marker with a fence are left as a whole block.
\<close>

theorem stripAgentActions_rescan_counterexample:
  "first_block joined_text ''``'' [] ''`gnami-action```''
   \<and> stripAgentActions joined_text = ''```gnami-action```''
   \<and> first_block (stripAgentActions joined_text) [] [] []
   \<and> \<not> no_block (stripAgentActions joined_text)"
proof -
  have a: "first_block joined_text ''``'' [] ''`gnami-action```''"
    by code_simp
  have b: "stripAgentActions joined_text = ''```gnami-action```''"
    by code_simp
  have c: "first_block ''```gnami-action```'' [] [] []"
    by code_simp
  then have "\<not> no_block ''```gnami-action```''"
    by (rule first_block_not_no_block)
  with a b c show ?thesis by simp
qed

text \<open>
  C3, amended. \<open>stripAgentActions(text)\<close> is the trimmed concatenation of the pieces
  of the text outside the blocks of one scan from left to right, in which a block
  starts at the first marker after the block before it and ends at the first fence
  after that marker. Scanning the output again finds no block, unless the removal
  of a block has assembled a marker: at a joint of two pieces the text before the
  joint ends with the first characters of the marker and the text after it begins
  with the remaining ones.
\<close>

theorem stripAgentActions_scan:
  "(\<exists>bodies pieces. scan s bodies pieces)
   \<and> (scan s bodies pieces \<longrightarrow>
        stripAgentActions s = trim (concat pieces)
        \<and> (\<not> assembled pieces \<longrightarrow>
             no_block (stripAgentActions s)
             \<and> parseAgentActions jp (stripAgentActions s) = []))"
proof (intro conjI impI)
  show "\<exists>bodies pieces. scan s bodies pieces"
    by (rule scan_exists)
next
  assume sc: "scan s bodies pieces"
  then show "stripAgentActions s = trim (concat pieces)"
    by (simp add: stripAgentActions_def scan_strip)
  assume "\<not> assembled pieces"
  with sc show "no_block (stripAgentActions s)"
    by (rule scan_rescan)
  then show "parseAgentActions jp (stripAgentActions s) = []"
    by (rule parseAgentActions_no_block)
qed

theorem stripAgentActions_scan_witness:
  "scan quoted_text [demo_body] [''Run `ls` now. '', '' Done.'']
   \<and> \<not> assembled [''Run `ls` now. '', '' Done.'']
   \<and> stripAgentActions quoted_text = ''Run `ls` now.  Done.''
   \<and> no_block (stripAgentActions quoted_text)
   \<and> parseAgentActions demo_parse (stripAgentActions quoted_text) = []
   \<and> scan joined_text [[]] [''``'', ''`gnami-action```'']
   \<and> assembled [''``'', ''`gnami-action```'']
   \<and> stripAgentActions joined_text = ''```gnami-action```''"
proof -
  have "search strip_at '' Done.'' = None"
    by code_simp
  then have "no_block '' Done.''"
    by (simp only: search_strip_at_None_iff)
  then have "scan '' Done.'' [] ['' Done.'']"
    by (rule scan_end)
  moreover have "first_block quoted_text ''Run `ls` now. '' demo_body '' Done.''"
    by code_simp
  ultimately have sc: "scan quoted_text [demo_body] [''Run `ls` now. '', '' Done.'']"
    by (rule scan_block [rotated])
  have na: "\<not> assembled [''Run `ls` now. '', '' Done.'']"
    by (rule not_assembled_pair) (simp_all add: marker_def)
  have tr: "trim (concat [''Run `ls` now. '', '' Done.'']) = ''Run `ls` now.  Done.''"
    by code_simp
  note T = stripAgentActions_scan [of quoted_text _ _ demo_parse, THEN conjunct2, THEN mp, OF sc]
  from T [THEN conjunct1] have out: "stripAgentActions quoted_text = ''Run `ls` now.  Done.''"
    unfolding tr .
  from T [THEN conjunct2, THEN mp, OF na]
  have clean: "no_block (stripAgentActions quoted_text)"
      "parseAgentActions demo_parse (stripAgentActions quoted_text) = []"
    by simp_all
  have "search strip_at ''`gnami-action```'' = None"
    by code_simp
  then have "no_block ''`gnami-action```''"
    by (simp only: search_strip_at_None_iff)
  then have "scan ''`gnami-action```'' [] [''`gnami-action```'']"
    by (rule scan_end)
  moreover have "first_block joined_text ''``'' [] ''`gnami-action```''"
    by code_simp
  ultimately have sj: "scan joined_text [[]] [''``'', ''`gnami-action```'']"
    by (rule scan_block [rotated])
  have as: "assembled [''``'', ''`gnami-action```'']"
    by (rule assembledI [of 1 _ "''``''" "''`gnami-action''"]) (simp_all add: marker_def)
  have tj: "trim (concat [''``'', ''`gnami-action```'']) = ''```gnami-action```''"
    by code_simp
  from stripAgentActions_scan [of joined_text _ _ demo_parse, THEN conjunct2, THEN mp, OF sj,
      THEN conjunct1]
  have outj: "stripAgentActions joined_text = ''```gnami-action```''"
    unfolding tj .
  from sc na out clean sj as outj show ?thesis
    by (intro conjI)
qed
section \<open>Claims about the turn handler\<close>




section \<open>Claims about sessions\<close>

text \<open>
  \<open>session_refreshed w msg w'\<close>: in \<open>w'\<close> the sender of \<open>msg\<close> has a session whose
  \<open>updatedAt\<close> is not before the clock of \<open>w\<close>.
\<close>

definition session_refreshed :: "'x world \<Rightarrow> 'x InboundMessage \<Rightarrow> 'x world \<Rightarrow> bool" where
  "session_refreshed w msg w' =
     (\<exists>row \<in> set (sessions (store w')).
        s_channel row = msg_channel msg \<and> s_sender_id row = msg_senderId msg
        \<and> clock (store w) \<le> s_updated_at row)"

text \<open>
  C9, as stated: for every inbound message that the turn handler processes, the
  session of the sender has its \<open>updatedAt\<close> refreshed during the turn. This fails
  for a message that ends the turn before \<open>getOrCreateSession\<close>: here a paired sender
  with a session from an earlier turn asks to restore the skill \<open>notes\<close>.
\<close>

theorem skill_command_leaves_session_stale:
  "\<not> session_refreshed paired_world restore_request
        (snd (handleInbound demo_env restore_request paired_world))"
proof -
  have cmd: "startsWith (msg_content restore_request) ''/skill restore ''"
    by (simp add: restore_request_def startsWith_def)
  have "sessions (store (snd (handleInbound demo_env restore_request paired_world)))
      = sessions (store paired_world)"
    by (rule handleInbound_keeps_sessions_early) (simp add: cmd)
  then show ?thesis
    by (simp add: session_refreshed_def paired_world_def paired_store_def)
qed

text \<open>
  C9, amended. For every inbound message of a sender whose pairing is approved and
  whose text does not start with \<open>/skill install\<close> or \<open>/skill restore\<close> followed by a
  space, the sender has a session after the turn whose \<open>updatedAt\<close> was set during
  the turn. A message of a sender who is not approved and a message that starts
  with one of the two commands and a space leave the table of sessions as it was.
\<close>

theorem paired_conversation_refreshes_session:
  "(fst (fst (upsertPairing (msg_channel msg) (msg_senderId msg) (store w)))
      \<and> \<not> startsWith (msg_content msg) ''/skill install ''
      \<and> \<not> startsWith (msg_content msg) ''/skill restore ''
    \<longrightarrow> session_refreshed w msg (snd (handleInbound env msg w)))
   \<and> (\<not> fst (fst (upsertPairing (msg_channel msg) (msg_senderId msg) (store w)))
      \<or> startsWith (msg_content msg) ''/skill install ''
      \<or> startsWith (msg_content msg) ''/skill restore ''
    \<longrightarrow> sessions (store (snd (handleInbound env msg w))) = sessions (store w))"
proof (intro conjI impI)
  assume "\<not> fst (fst (upsertPairing (msg_channel msg) (msg_senderId msg) (store w)))
      \<or> startsWith (msg_content msg) ''/skill install ''
      \<or> startsWith (msg_content msg) ''/skill restore ''"
  then show "sessions (store (snd (handleInbound env msg w))) = sessions (store w)"
    by (rule handleInbound_keeps_sessions_early)
next
  let ?ch = "msg_channel msg" and ?sid = "msg_senderId msg"
  let ?uid = "channel_name ?ch @ '':'' @ ?sid"
  assume a: "fst (fst (upsertPairing ?ch ?sid (store w)))
      \<and> \<not> startsWith (msg_content msg) ''/skill install ''
      \<and> \<not> startsWith (msg_content msg) ''/skill restore ''"
  then have same: "snd (upsertPairing ?ch ?sid (store w)) = store w"
    by (simp add: upsertPairing_approved)
  obtain code where up: "upsertPairing ?ch ?sid (store w) = ((True, code), store w)"
    using a same by (cases "upsertPairing ?ch ?sid (store w)") auto
  from getOrCreateSession_row [of ?ch ?sid "store w"]
  obtain sessionId db2 row where g: "getOrCreateSession ?ch ?sid (store w) = (Inr sessionId, db2)"
    and row: "row \<in> set (sessions db2)" "s_channel row = ?ch" "s_sender_id row = ?sid"
      "s_updated_at row = clock (store w)"
    by blast
  let ?w2 = "w\<lparr>store := db2\<rparr>"
  have t: "turn env msg w = in_session env msg ?uid sessionId ?w2"
    using up a g by (simp add: turn_def conversation_def bnd_def on_db_def on_db_throwing_def Let_def)
  have k: "keeps_sessions (try_catch (in_session env msg ?uid sessionId) (on_error msg))"
    by (intro keeps)
  have "handleInbound env msg w = try_catch (in_session env msg ?uid sessionId) (on_error msg) ?w2"
    using t by (simp add: handleInbound_def try_catch_def)
  with k have "sessions (store (snd (handleInbound env msg w))) = sessions db2"
    by (simp add: keeps_sessions_def)
  with row show "session_refreshed w msg (snd (handleInbound env msg w))"
    unfolding session_refreshed_def by auto
qed


theorem paired_conversation_refreshes_session_witness:
  "fst (fst (upsertPairing (msg_channel hello) (msg_senderId hello) (store paired_world)))
   \<and> \<not> startsWith (msg_content hello) ''/skill install ''
   \<and> \<not> startsWith (msg_content hello) ''/skill restore ''
   \<and> session_refreshed paired_world hello (snd (handleInbound demo_env hello paired_world))
   \<and> startsWith (msg_content restore_request) ''/skill restore ''
   \<and> sessions (store (snd (handleInbound demo_env restore_request paired_world)))
       = sessions (store paired_world)"
proof -
  have a: "fst (fst (upsertPairing (msg_channel hello) (msg_senderId hello) (store paired_world)))"
    by (simp add: upsertPairing_def find_pairing_def hello_def paired_world_def paired_store_def)
  have b: "\<not> startsWith (msg_content hello) ''/skill install ''"
      "\<not> startsWith (msg_content hello) ''/skill restore ''"
    by (simp_all add: hello_def startsWith_def)
  have c: "startsWith (msg_content restore_request) ''/skill restore ''"
    by (simp add: restore_request_def startsWith_def)
  from paired_conversation_refreshes_session [of hello paired_world demo_env] a b
  have "session_refreshed paired_world hello (snd (handleInbound demo_env hello paired_world))"
    by blast
  moreover from paired_conversation_refreshes_session [of restore_request paired_world demo_env] c
  have "sessions (store (snd (handleInbound demo_env restore_request paired_world)))
       = sessions (store paired_world)"
    by blast
  ultimately show ?thesis using a b c by simp
qed

section \<open>Claims about the persona bootstrap\<close>

text \<open>
  C8. \<open>parsePersonaInput\<close> on the text "Mon nom c'est Gabriel, je parle francais"
  returns the user name "Gabriel" and the language "francais", a value that
  contains "francais"; the assistant name is left unset.
\<close>

theorem parsePersonaInput_french_introduction:
  "f_userName (parsePersonaInput persona_message) = Some ''Gabriel''
   \<and> f_language (parsePersonaInput persona_message) = Some ''francais''
   \<and> str_includes (the (f_language (parsePersonaInput persona_message))) ''francais''
   \<and> f_assistantName (parsePersonaInput persona_message) = None"
proof -
  have "parsePersonaInput persona_message
      = \<lparr>f_assistantName = None, f_userName = Some ''Gabriel'', f_language = Some ''francais''\<rparr>"
    by code_simp
  moreover have "str_includes ''francais'' ''francais''"
    by code_simp
  ultimately show ?thesis by simp
qed

theorem parsePersonaInput_french_introduction_witness:
  "truthy (f_userName (parsePersonaInput persona_message))
   \<and> truthy (f_language (parsePersonaInput persona_message))
   \<and> \<not> truthy (f_assistantName (parsePersonaInput persona_message))"
  using parsePersonaInput_french_introduction by (simp add: truthy_def)

section \<open>Claims about the identity question\<close>

text \<open>
  C7. A message whose content matches the identity question never reaches the model
  provider: the turn is the same for any two provider functions, in every world.
  For such a message of an approved sender with a complete persona that is not a
  skill command, when every step before the reply returns (the file system rejects
  no operation on the workspace, the memory service returns its context; the calls
  of the store always return), the first reply of the turn is derived from the
  self-description document \<open>SOUL.md\<close>: with the heading line removed and the
  rest trimmed, it is the trimmed text before the first blank line, and it is the
  generic sentence with the name of the assistant when nothing is left of the
  document or of that paragraph.
\<close>

theorem identity_question_short_circuit:
  assumes question: "isIdentityQuestion (msg_content msg)"
  shows
    "(\<forall>r1 r2. handleInbound (env\<lparr>respond := r1\<rparr>) msg w = handleInbound (env\<lparr>respond := r2\<rparr>) msg w)
     \<and> (fst (fst (upsertPairing (msg_channel msg) (msg_senderId msg) (store w)))
        \<and> \<not> startsWith (msg_content msg) ''/skill install ''
        \<and> \<not> startsWith (msg_content msg) ''/skill restore ''
        \<and> user_name (stored_persona w) \<noteq> [] \<and> language (stored_persona w) \<noteq> []
        \<and> healthy w
        \<and> (\<forall>hint. \<exists>ctx x'. memory_getContext env
               (channel_name (msg_channel msg) @ '':'' @ msg_senderId msg) (msg_content msg) hint (ext w)
               = (Inr ctx, x'))
        \<longrightarrow> take (Suc (length (outbox w))) (outbox (snd (handleInbound env msg w)))
            = outbox w @
              [let cleaned = trim (rx_replace flags_im rx_soul_heading [] (doc w ''SOUL.md''));
                   name = resolveAssistantNameFromDocs (docs_of w)
                            (case assistantName w of None \<Rightarrow> ''GnamiBot'' | Some n \<Rightarrow> n);
                   generic = ''I am '' @ name
                             @ '', your local-first personal assistant running on this computer.''
               in if cleaned = [] then generic
                  else (case rx_split flags_none rx_blank_line cleaned of
                          [] \<Rightarrow> generic
                        | first # others \<Rightarrow> if trim first = [] then generic else trim first)])"
proof (intro conjI impI)
  show "\<forall>r1 r2. handleInbound (env\<lparr>respond := r1\<rparr>) msg w = handleInbound (env\<lparr>respond := r2\<rparr>) msg w"
    by (simp add: handleInbound_question_respond [OF question])
next
  let ?uid = "channel_name (msg_channel msg) @ '':'' @ msg_senderId msg"
  assume a: "fst (fst (upsertPairing (msg_channel msg) (msg_senderId msg) (store w)))
        \<and> \<not> startsWith (msg_content msg) ''/skill install ''
        \<and> \<not> startsWith (msg_content msg) ''/skill restore ''
        \<and> user_name (stored_persona w) \<noteq> [] \<and> language (stored_persona w) \<noteq> []
        \<and> healthy w
        \<and> (\<forall>hint. \<exists>ctx x'. memory_getContext env ?uid (msg_content msg) hint (ext w) = (Inr ctx, x'))"
  then have "take (Suc (length (outbox w))) (outbox (snd (handleInbound env msg w)))
      = outbox w @ [identity_text w]"
    by (intro handleInbound_identity_reply question) simp_all
  then show "take (Suc (length (outbox w))) (outbox (snd (handleInbound env msg w)))
            = outbox w @
              [let cleaned = trim (rx_replace flags_im rx_soul_heading [] (doc w ''SOUL.md''));
                   name = resolveAssistantNameFromDocs (docs_of w)
                            (case assistantName w of None \<Rightarrow> ''GnamiBot'' | Some n \<Rightarrow> n);
                   generic = ''I am '' @ name
                             @ '', your local-first personal assistant running on this computer.''
               in if cleaned = [] then generic
                  else (case rx_split flags_none rx_blank_line cleaned of
                          [] \<Rightarrow> generic
                        | first # others \<Rightarrow> if trim first = [] then generic else trim first)]"
    by (simp only: identity_text_explicit)
qed

theorem identity_question_short_circuit_witness:
  "isIdentityQuestion (msg_content who)
   \<and> fst (fst (upsertPairing (msg_channel who) (msg_senderId who) (store settled_world)))
   \<and> \<not> startsWith (msg_content who) ''/skill install ''
   \<and> \<not> startsWith (msg_content who) ''/skill restore ''
   \<and> user_name (stored_persona settled_world) \<noteq> []
   \<and> language (stored_persona settled_world) \<noteq> []
   \<and> healthy settled_world
   \<and> handleInbound (demo_env\<lparr>respond := (\<lambda>request x. (Inr ''I am a model.'', x))\<rparr>) who settled_world
       = handleInbound (demo_env\<lparr>respond := (\<lambda>request x. (Inl (Error ''no provider''), x))\<rparr>) who
           settled_world
   \<and> take 1 (outbox (snd (handleInbound demo_env who settled_world)))
       = [''You are Bo.\<newline>Be kind.'']
   \<and> take 1 (outbox (snd (handleInbound demo_env who bare_world)))
       = [''I am GnamiBot, your local-first personal assistant running on this computer.'']"
proof -
  have "isIdentityQuestion ''Who are you?''"
    by code_simp
  then have q: "isIdentityQuestion (msg_content who)"
    by (simp add: who_def)
  have a: "fst (fst (upsertPairing (msg_channel who) (msg_senderId who) (store settled_world)))"
      "fst (fst (upsertPairing (msg_channel who) (msg_senderId who) (store bare_world)))"
    by (simp_all add: upsertPairing_def find_pairing_def who_def settled_world_def bare_world_def
          paired_world_def paired_store_def)
  have b: "\<not> startsWith (msg_content who) ''/skill install ''"
      "\<not> startsWith (msg_content who) ''/skill restore ''"
    by (simp_all add: who_def startsWith_def)
  have c: "user_name (stored_persona settled_world) \<noteq> []"
      "language (stored_persona settled_world) \<noteq> []"
      "user_name (stored_persona bare_world) \<noteq> []"
      "language (stored_persona bare_world) \<noteq> []"
    by (simp_all add: settled_persona bare_persona)
  have m: "\<forall>hint. \<exists>ctx x'. memory_getContext demo_env
             (channel_name (msg_channel who) @ '':'' @ msg_senderId who) (msg_content who) hint x
             = (Inr ctx, x')" for x
    by (simp add: demo_env_def)
  note t = identity_question_short_circuit [OF q]
  have same: "handleInbound (demo_env\<lparr>respond := (\<lambda>request x. (Inr ''I am a model.'', x))\<rparr>) who
                settled_world
              = handleInbound (demo_env\<lparr>respond := (\<lambda>request x. (Inl (Error ''no provider''), x))\<rparr>)
                  who settled_world"
    using t [of demo_env settled_world, THEN conjunct1] by blast
  have "take (Suc (length (outbox settled_world)))
          (outbox (snd (handleInbound demo_env who settled_world)))
        = outbox settled_world @ [identity_text settled_world]"
    unfolding identity_text_explicit
    using t [of demo_env settled_world, THEN conjunct2] a(1) b c(1,2) settled_world_fields(3) m
    by blast
  then have first: "take 1 (outbox (snd (handleInbound demo_env who settled_world)))
      = [''You are Bo.\<newline>Be kind.'']"
    by (simp add: settled_world_fields settled_identity)
  have "take (Suc (length (outbox bare_world)))
          (outbox (snd (handleInbound demo_env who bare_world)))
        = outbox bare_world @ [identity_text bare_world]"
    unfolding identity_text_explicit
    using t [of demo_env bare_world, THEN conjunct2] a(2) b c(3,4) bare_world_fields(3) m
    by blast
  then have generic: "take 1 (outbox (snd (handleInbound demo_env who bare_world)))
      = [''I am GnamiBot, your local-first personal assistant running on this computer.'']"
    by (simp add: bare_world_fields identity_text_def soulToIdentityReply_def generic_identity_def
          bare_docs bare_cleaned bare_name)
  from q a(1) b c(1,2) settled_world_fields(3) same first generic show ?thesis
    by simp
qed
section \<open>Claims about the round trip\<close>

text \<open>
  C6, as stated: whenever at least one action was executed and the output of the
  second pass is empty after stripping the action markup, the reply is
  \<open>Action completed.\<close>. The handler falls back to the stripped text of the first pass
  before it falls back to the generic text: here the first pass is a sentence
  followed by a shell action, the second pass is an action block and nothing else
  (so it strips to the empty string), and the only reply of the turn is the
  sentence.
\<close>

theorem first_pass_text_precedes_generic_reply:
  "fst (fst (upsertPairing (msg_channel list_files) (msg_senderId list_files) (store settled_world)))
   \<and> \<not> startsWith (msg_content list_files) ''/skill install ''
   \<and> \<not> startsWith (msg_content list_files) ''/skill restore ''
   \<and> user_name (stored_persona settled_world) \<noteq> []
   \<and> language (stored_persona settled_world) \<noteq> []
   \<and> \<not> isIdentityQuestion (msg_content list_files)
   \<and> respond chatty_env
       = (\<lambda>request x. (Inr (if x = 0 then chatty_response else demo_block), Suc x))
   \<and> take 3 (parseAgentActions (json_parse chatty_env) chatty_response) = [Shell ''ls'' None]
   \<and> demo_block \<noteq> []
   \<and> stripAgentActions demo_block = []
   \<and> outbox (snd (handleInbound chatty_env list_files settled_world)) = [''On it.'']"
proof -
  let ?uid = "channel_name (msg_channel list_files) @ '':'' @ msg_senderId list_files"
  have a: "fst (fst (upsertPairing (msg_channel list_files) (msg_senderId list_files)
                  (store settled_world)))"
    by (simp add: upsertPairing_def find_pairing_def list_files_def settled_world_def
          paired_world_def paired_store_def)
  have b: "\<not> startsWith (msg_content list_files) ''/skill install ''"
      "\<not> startsWith (msg_content list_files) ''/skill restore ''"
    by (simp_all add: list_files_def startsWith_def)
  have c: "user_name (stored_persona settled_world) \<noteq> []
      \<and> language (stored_persona settled_world) \<noteq> []"
    by (simp add: settled_persona)
  have "\<not> isIdentityQuestion ''list the files''"
    by code_simp
  then have d: "\<not> isIdentityQuestion (msg_content list_files)"
    by (simp add: list_files_def)
  have r: "respond chatty_env
      = (\<lambda>request x. (Inr (if x = 0 then chatty_response else demo_block), Suc x))"
    by (simp add: chatty_env_def)
  have parsed: "parseAgentActions (json_parse chatty_env) chatty_response = [Shell ''ls'' None]"
    by (simp add: chatty_env_def demo_env_def example_passes)
  have block: "demo_block \<noteq> []"
    by (simp add: demo_block_def)
  have mem: "\<forall>hint. memory_getContext chatty_env ?uid (msg_content list_files) hint
               (ext settled_world) = (Inr [], 0)"
    by (simp add: chatty_env_def demo_env_def settled_world_fields)
  from handleInbound_round_trip [OF a b c d settled_world_fields(3) mem]
  obtain sid db history where h: "handleInbound chatty_env list_files settled_world
      = try_catch (round_trip chatty_env list_files ?uid sid history []) (on_error list_files)
          (settled_world\<lparr>store := db, ext := 0, files := ensured (files settled_world)\<rparr>)"
    by blast
  let ?w = "settled_world\<lparr>store := db, ext := 0, files := ensured (files settled_world)\<rparr>"
  have healthy: "healthy ?w"
    by (simp add: settled_world_fields)
  have first: "respond chatty_env (first_request list_files history [] ?w) (ext ?w)
      = (Inr chatty_response, 1)"
    by (simp add: r)
  have nonempty: "parseAgentActions (json_parse chatty_env) chatty_response \<noteq> []"
    by (simp add: parsed)
  obtain results w2 where exec: "executeAgentActions chatty_env True
        (take 3 (parseAgentActions (json_parse chatty_env) chatty_response))
        (?w\<lparr>files := ensured (files ?w), ext := 1\<rparr>) = (results, w2)"
    by (cases "executeAgentActions chatty_env True
        (take 3 (parseAgentActions (json_parse chatty_env) chatty_response))
        (?w\<lparr>files := ensured (files ?w), ext := 1\<rparr>)") auto
  have "ext (snd (executeAgentActions chatty_env True [Shell ''ls'' None]
          (?w\<lparr>files := ensured (files ?w), ext := 1\<rparr>))) = Suc 1"
    by (simp add: example_action_ext chatty_env_def)
  with exec have x2: "ext w2 = 2"
    by (simp add: parsed)
  have second: "respond chatty_env (second_request list_files history [] ?w results) (ext w2)
      = (Inr demo_block, 3)"
    by (simp add: r x2)
  have reply: "\<forall>body x. fst (msg_reply list_files body x) = Inr ()"
    by (simp add: list_files_def reply_ok_def)
  have "fst (round_trip chatty_env list_files ?uid sid history [] ?w) = Inr ()"
    by (rule round_trip_returns [OF healthy first nonempty exec second reply])
  then have "handleInbound chatty_env list_files settled_world
      = round_trip chatty_env list_files ?uid sid history [] ?w"
    unfolding h by (rule try_catch_returned)
  moreover have "outbox (snd (round_trip chatty_env list_files ?uid sid history [] ?w))
      = outbox ?w @ [final_reply demo_block (stripAgentActions chatty_response)]"
    by (rule round_trip_outbox [OF healthy first nonempty exec second])
  ultimately have "outbox (snd (handleInbound chatty_env list_files settled_world)) = [''On it.'']"
    by (simp add: final_reply_def example_passes settled_world_fields)
  with a b c d r parsed block example_passes(4) show ?thesis
    by simp
qed

text \<open>
  C6, amended. In the round trip, whenever the first pass of the model asks for at
  least one action, both passes return, and the output of the second pass is empty
  after stripping the action markup, the reply is the first pass stripped of its
  action markup when that is not empty, and \<open>Action completed.\<close> when it is empty as
  well. (The round trip runs in a world whose file system rejects no operation on
  the workspace, so that the workspace context is built.)
\<close>

theorem empty_second_pass_reply:
  assumes healthy: "healthy w"
    and first: "respond env (first_request msg history memoryContext w) (ext w) = (Inr firstPass, x1)"
    and acts: "parseAgentActions (json_parse env) firstPass \<noteq> []"
    and exec: "executeAgentActions env True (take 3 (parseAgentActions (json_parse env) firstPass))
                 (w\<lparr>files := ensured (files w), ext := x1\<rparr>) = (results, w2)"
    and second: "respond env (second_request msg history memoryContext w results) (ext w2)
                 = (Inr secondPass, x2)"
    and empty: "stripAgentActions secondPass = []"
  shows "outbox (snd (round_trip env msg uid sid history memoryContext w))
         = outbox w @ [if stripAgentActions firstPass = [] then ''Action completed.''
                       else stripAgentActions firstPass]"
  using round_trip_outbox [OF healthy first acts exec second, of uid sid] empty
  by (simp add: final_reply_def)

theorem empty_second_pass_reply_witness:
  "healthy settled_world
   \<and> respond terse_env (first_request list_files [] [] settled_world) (ext settled_world)
       = (Inr demo_block, 1)
   \<and> parseAgentActions (json_parse terse_env) demo_block \<noteq> []
   \<and> demo_block \<noteq> []
   \<and> stripAgentActions demo_block = []
   \<and> outbox (snd (round_trip terse_env list_files ''webchat:u1'' 1 [] [] settled_world))
       = [''Action completed.'']
   \<and> stripAgentActions chatty_response = ''On it.''
   \<and> outbox (snd (round_trip chatty_env list_files ''webchat:u1'' 1 [] [] settled_world))
       = [''On it.'']"
proof -
  let ?w = settled_world
  have block: "demo_block \<noteq> []"
    by (simp add: demo_block_def)
  have quiet: "outbox (snd (round_trip env list_files ''webchat:u1'' 1 [] [] ?w))
      = [if stripAgentActions firstPass = [] then ''Action completed.''
         else stripAgentActions firstPass]"
    if r: "respond env = (\<lambda>request x. (Inr (if x = 0 then firstPass else demo_block), Suc x))"
      and jp: "json_parse env = demo_parse" and sp: "spawn env = spawn demo_env"
      and parsed: "parseAgentActions demo_parse firstPass = [Shell ''ls'' None]"
    for env :: "nat env" and firstPass
  proof -
    have first: "respond env (first_request list_files [] [] ?w) (ext ?w) = (Inr firstPass, 1)"
      by (simp add: r settled_world_fields)
    have nonempty: "parseAgentActions (json_parse env) firstPass \<noteq> []"
      by (simp add: jp parsed)
    obtain results w2 where exec: "executeAgentActions env True
          (take 3 (parseAgentActions (json_parse env) firstPass))
          (?w\<lparr>files := ensured (files ?w), ext := 1\<rparr>) = (results, w2)"
      by (cases "executeAgentActions env True
          (take 3 (parseAgentActions (json_parse env) firstPass))
          (?w\<lparr>files := ensured (files ?w), ext := 1\<rparr>)") auto
    have "ext (snd (executeAgentActions env True [Shell ''ls'' None]
            (?w\<lparr>files := ensured (files ?w), ext := 1\<rparr>))) = Suc 1"
      by (simp add: example_action_ext sp)
    with exec have x2: "ext w2 = 2"
      by (simp add: jp parsed)
    have second: "respond env (second_request list_files [] [] ?w results) (ext w2)
        = (Inr demo_block, 3)"
      by (simp add: r x2)
    from empty_second_pass_reply [OF settled_world_fields(3) first nonempty exec second
        example_passes(4), of "''webchat:u1''" 1]
    show ?thesis
      by (simp add: settled_world_fields)
  qed
  have terse: "outbox (snd (round_trip terse_env list_files ''webchat:u1'' 1 [] [] ?w))
      = [''Action completed.'']"
    using quiet [of terse_env demo_block]
    by (simp add: terse_env_def demo_env_def example_passes)
  have chatty: "outbox (snd (round_trip chatty_env list_files ''webchat:u1'' 1 [] [] ?w))
      = [''On it.'']"
    using quiet [of chatty_env chatty_response]
    by (simp add: chatty_env_def demo_env_def example_passes)
  have first: "respond terse_env (first_request list_files [] [] ?w) (ext ?w) = (Inr demo_block, 1)"
    by (simp add: terse_env_def settled_world_fields)
  have nonempty: "parseAgentActions (json_parse terse_env) demo_block \<noteq> []"
    by (simp add: terse_env_def demo_env_def example_passes)
  from settled_world_fields(3) first nonempty block example_passes(2,4) terse chatty show ?thesis
    by simp
qed
end
